theory Spec2Isabelle
  imports Main
begin

section \<open>JavaScript \<open>Map\<close>\<close>

text \<open>
  A \<open>Map\<close> iterates in insertion order, so it is kept as an association list.  \<open>set\<close> on a
  key already present replaces the value in place; on a new key it appends.
\<close>

definition jsmap_get :: "('k \<times> 'v) list \<Rightarrow> 'k \<Rightarrow> 'v option" where
  "jsmap_get m k = map_of m k"

fun jsmap_set :: "('k \<times> 'v) list \<Rightarrow> 'k \<Rightarrow> 'v \<Rightarrow> ('k \<times> 'v) list" where
  "jsmap_set [] k v = [(k, v)]"
| "jsmap_set (e # m) k v = (if fst e = k then (k, v) # m else e # jsmap_set m k v)"

definition jsmap_delete :: "('k \<times> 'v) list \<Rightarrow> 'k \<Rightarrow> ('k \<times> 'v) list" where
  "jsmap_delete m k = filter (\<lambda>e. fst e \<noteq> k) m"

definition jsmap_size :: "('k \<times> 'v) list \<Rightarrow> nat" where
  "jsmap_size m = length m"

definition jsmap_keys :: "('k \<times> 'v) list \<Rightarrow> 'k list" where
  "jsmap_keys m = map fst m"

section \<open>Filter algebra (namespace \<open>filter\<close> and class \<open>Filters\<close>)\<close>

text \<open>
  Values that travel inside a filter.  A JavaScript \<open>Set\<close> is kept as the list of its
  members in insertion order, which is the order \<open>Array.from\<close> produces.
\<close>

datatype jsvalue =
    JNull
  | JNumber int
  | JString string
  | JBool bool
  | JArray "jsvalue list"
  | JSet "jsvalue list"

text \<open>
  The extractor classes live in the module \<open>./extractors\<close>; the filters only call their
  constructors, which are kept as constructors here.  \<open>OtherExtractor\<close> stands for any
  other \<open>ValueExtractor\<close> instance handed in by the caller.
\<close>

datatype extractor =
    UniversalExtractor string
  | ChainedExtractor string
  | OtherExtractor nat

text \<open>The argument type \<open>extractor.ValueExtractor<T, E> | string\<close>.\<close>

datatype extractor_or_method =
    Extractor extractor
  | Method string

text \<open>
  A filter object, by the fields its class hierarchy declares: \<open>Filter\<close> has only
  \<open>'@class'\<close>; \<open>ComparisonFilter\<close> adds \<open>extractor\<close> and \<open>value\<close>; \<open>ArrayFilter\<close> adds
  \<open>filters\<close>; \<open>BetweenFilter\<close> (an \<open>AndFilter\<close>, hence an \<open>ArrayFilter\<close>) adds \<open>from\<close> and
  \<open>to\<close>; \<open>MapEventFilter\<close> adds \<open>mask\<close> and \<open>filter\<close>.
\<close>

datatype filter =
    Filter (clazz: string)
  | ComparisonFilter (clazz: string) extractor jsvalue
  | ArrayFilter (clazz: string) "filter list"
  | BetweenFilterObj (clazz: string) "filter list" jsvalue jsvalue
  | MapEventFilterObj (clazz: string) nat "filter option"

definition filterName :: "string \<Rightarrow> string" where
  "filterName name = ''filter.'' @ name"

text \<open>The constructor of \<open>ExtractorFilter\<close>: a method name without a dot becomes a
  universal extractor, one with a dot a chained extractor.\<close>

definition ExtractorFilter_extractor :: "extractor_or_method \<Rightarrow> extractor" where
  "ExtractorFilter_extractor extractorOrMethod =
     (case extractorOrMethod of
        Extractor e \<Rightarrow> e
      | Method name \<Rightarrow>
          (if CHR ''.'' \<notin> set name then UniversalExtractor name else ChainedExtractor name))"

text \<open>The constructor of \<open>ComparisonFilter\<close>: a \<open>Set\<close> is stored as an array.\<close>

definition ComparisonFilter_value :: "jsvalue \<Rightarrow> jsvalue" where
  "ComparisonFilter_value v = (case v of JSet xs \<Rightarrow> JArray xs | _ \<Rightarrow> v)"

definition new_ComparisonFilter :: "string \<Rightarrow> extractor_or_method \<Rightarrow> jsvalue \<Rightarrow> filter" where
  "new_ComparisonFilter typeName extractorOrMethod v =
     ComparisonFilter typeName (ExtractorFilter_extractor extractorOrMethod) (ComparisonFilter_value v)"

definition GreaterEqualsFilter :: "extractor_or_method \<Rightarrow> jsvalue \<Rightarrow> filter" where
  "GreaterEqualsFilter x v = new_ComparisonFilter (filterName ''GreaterEqualsFilter'') x v"

definition GreaterFilter :: "extractor_or_method \<Rightarrow> jsvalue \<Rightarrow> filter" where
  "GreaterFilter x v = new_ComparisonFilter (filterName ''GreaterFilter'') x v"

definition LessEqualsFilter :: "extractor_or_method \<Rightarrow> jsvalue \<Rightarrow> filter" where
  "LessEqualsFilter x v = new_ComparisonFilter (filterName ''LessEqualsFilter'') x v"

definition LessFilter :: "extractor_or_method \<Rightarrow> jsvalue \<Rightarrow> filter" where
  "LessFilter x v = new_ComparisonFilter (filterName ''LessFilter'') x v"

definition AllFilter :: "filter list \<Rightarrow> filter" where
  "AllFilter fs = ArrayFilter (filterName ''AllFilter'') fs"

text \<open>Assignment to \<open>this['@class']\<close> after the super constructor has run.\<close>

fun set_class :: "filter \<Rightarrow> string \<Rightarrow> filter" where
  "set_class (Filter _) c = Filter c"
| "set_class (ComparisonFilter _ e v) c = ComparisonFilter c e v"
| "set_class (ArrayFilter _ fs) c = ArrayFilter c fs"
| "set_class (BetweenFilterObj _ fs a b) c = BetweenFilterObj c fs a b"
| "set_class (MapEventFilterObj _ m f) c = MapEventFilterObj c m f"

definition AndFilter :: "filter \<Rightarrow> filter \<Rightarrow> filter" where
  "AndFilter left right = set_class (AllFilter [left, right]) (filterName ''AndFilter'')"

text \<open>The children of an array filter (the field \<open>filters\<close>).\<close>

fun filters_of :: "filter \<Rightarrow> filter list" where
  "filters_of (ArrayFilter _ fs) = fs"
| "filters_of (BetweenFilterObj _ fs _ _) = fs"
| "filters_of _ = []"

text \<open>The constructor of \<open>BetweenFilter\<close>: the \<open>AndFilter\<close> super constructor receives the
  two comparison filters chosen by the inclusion flags, then the tag is replaced and the
  bounds are stored.\<close>

definition BetweenFilter ::
  "extractor_or_method \<Rightarrow> jsvalue \<Rightarrow> jsvalue \<Rightarrow> bool \<Rightarrow> bool \<Rightarrow> filter" where
  "BetweenFilter extractorOrMethod from to includeLowerBound includeUpperBound =
     (let super = AndFilter
            (if includeLowerBound then GreaterEqualsFilter extractorOrMethod from
             else GreaterFilter extractorOrMethod from)
            (if includeUpperBound then LessEqualsFilter extractorOrMethod to
             else LessFilter extractorOrMethod to)
      in BetweenFilterObj (filterName ''BetweenFilter'') (filters_of super) from to)"

definition Filters_between ::
  "extractor_or_method \<Rightarrow> jsvalue \<Rightarrow> jsvalue \<Rightarrow> bool \<Rightarrow> bool \<Rightarrow> filter" where
  "Filters_between extractorOrMethod from to includeLowerBound includeUpperBound =
     BetweenFilter extractorOrMethod from to includeLowerBound includeUpperBound"

definition AlwaysFilter_INSTANCE :: filter where
  "AlwaysFilter_INSTANCE = Filter (filterName ''AlwaysFilter'')"

definition Filters_always :: filter where
  "Filters_always = AlwaysFilter_INSTANCE"

text \<open>The event mask bits of \<open>MapEventFilter\<close>.\<close>

definition E_INSERTED :: nat where "E_INSERTED = 1"
definition E_UPDATED :: nat where "E_UPDATED = 2"
definition E_DELETED :: nat where "E_DELETED = 4"
definition E_UPDATED_ENTERED :: nat where "E_UPDATED_ENTERED = 8"
definition E_UPDATED_LEFT :: nat where "E_UPDATED_LEFT = 16"
definition E_UPDATED_WITHIN :: nat where "E_UPDATED_WITHIN = 32"

text \<open>\<open>E_KEYSET\<close> is the bitwise or of four distinct bits, that is, their sum.\<close>

definition E_KEYSET :: nat where
  "E_KEYSET = E_INSERTED + E_DELETED + E_UPDATED_ENTERED + E_UPDATED_LEFT"

text \<open>The first argument of the \<open>MapEventFilter\<close> constructor, \<open>number | Filter\<close>.\<close>

datatype mask_or_filter =
    Mask nat
  | AFilter filter

text \<open>The constructor of \<open>MapEventFilter\<close>.  With two arguments the first is read as the
  mask (the source casts without a check; a filter passed there is outside this model and
  yields mask 0 here).\<close>

definition MapEventFilter :: "mask_or_filter \<Rightarrow> filter option \<Rightarrow> filter" where
  "MapEventFilter maskOrFilter flt =
     (case flt of
        Some f \<Rightarrow>
          MapEventFilterObj (filterName ''MapEventFilter'')
            (case maskOrFilter of Mask n \<Rightarrow> n | AFilter _ \<Rightarrow> 0) (Some f)
      | None \<Rightarrow>
          (case maskOrFilter of
             AFilter f \<Rightarrow> MapEventFilterObj (filterName ''MapEventFilter'') E_KEYSET (Some f)
           | Mask n \<Rightarrow> MapEventFilterObj (filterName ''MapEventFilter'') n None))"

section \<open>The callback of \<open>get\<close> and \<open>put\<close> in the JavaScript \<open>NamedCacheClient\<close>\<close>

type_synonym error = string

text \<open>A call the callback makes on the functions of its promise.\<close>

datatype settle =
    Resolve jsvalue
  | Reject error

text \<open>The state of a promise after a sequence of calls: the first call settles it, later
  calls are ignored.\<close>

datatype promise_state =
    Pending
  | Fulfilled jsvalue
  | Rejected error

fun promise_after :: "settle list \<Rightarrow> promise_state" where
  "promise_after [] = Pending"
| "promise_after (Resolve v # _) = Fulfilled v"
| "promise_after (Reject e # _) = Rejected e"

text \<open>An exception that leaves the callback (thrown by \<open>JSON.parse\<close>).\<close>

datatype thrown = SyntaxError

text \<open>
  The callback \<open>(err, response) => ...\<close> handed to \<open>client.get\<close>.  \<open>err\<close> is \<open>None\<close> when
  the call succeeded; \<open>response.value\<close> is \<open>None\<close> when the field is undefined.  \<open>JSON.parse\<close>
  is a parameter: \<open>None\<close> is a payload it rejects.  The result is the list of calls to
  \<open>resolve\<close> and \<open>reject\<close> in the order they are made.
\<close>

definition get_callback ::
  "(string \<Rightarrow> jsvalue option) \<Rightarrow> error option \<Rightarrow> string option \<Rightarrow> thrown + settle list" where
  "get_callback JSON_parse err response_value =
     (case err of
        Some e \<Rightarrow> Inr [Reject e]
      | None \<Rightarrow>
          (if response_value \<noteq> None \<and> length (the response_value) > 0 then
             (case JSON_parse (the response_value) of
                None \<Rightarrow> Inl SyntaxError
              | Some v \<Rightarrow> Inr [Resolve v, Resolve JNull])
           else Inr [Resolve JNull]))"

text \<open>The callback handed to \<open>client.put\<close> has the same body.\<close>

definition put_callback ::
  "(string \<Rightarrow> jsvalue option) \<Rightarrow> error option \<Rightarrow> string option \<Rightarrow> thrown + settle list" where
  "put_callback JSON_parse err response_value =
     (case err of
        Some e \<Rightarrow> Inr [Reject e]
      | None \<Rightarrow>
          (if response_value \<noteq> None \<and> length (the response_value) > 0 then
             (case JSON_parse (the response_value) of
                None \<Rightarrow> Inl SyntaxError
              | Some v \<Rightarrow> Inr [Resolve v, Resolve JNull])
           else Inr [Resolve JNull]))"

text \<open>The calls to \<open>resolve\<close> among the calls of a callback that returned.\<close>

fun resolve_calls :: "thrown + settle list \<Rightarrow> jsvalue list" where
  "resolve_calls (Inl _) = []"
| "resolve_calls (Inr cs) = concat (map (\<lambda>c. case c of Resolve v \<Rightarrow> [v] | Reject _ \<Rightarrow> []) cs)"

fun promise_of :: "thrown + settle list \<Rightarrow> promise_state" where
  "promise_of (Inl _) = Pending"
| "promise_of (Inr cs) = promise_after cs"

section \<open>Session options (classes \<open>Options\<close> and \<open>TlsOptions\<close>)\<close>

text \<open>A request timeout: a number of milliseconds or \<open>Number.POSITIVE_INFINITY\<close>.\<close>

datatype millis =
    Millis int
  | POSITIVE_INFINITY

record TlsOptions =
  tls_locked :: bool
  enabled :: bool
  caCertPath :: "string option"
  clientCertPath :: "string option"
  clientKeyPath :: "string option"

text \<open>\<open>callOptions\<close> is a function object; only its identity matters here (0 is the function
  the constructor installs).\<close>

record Options =
  address :: string
  requestTimeoutInMillis :: millis
  format :: string
  callOptions :: nat
  locked :: bool
  tls :: TlsOptions

definition DEFAULT_ADDRESS :: string where "DEFAULT_ADDRESS = ''localhost:1408''"
definition DEFAULT_REQUEST_TIMEOUT :: int where "DEFAULT_REQUEST_TIMEOUT = 60000"
definition DEFAULT_FORMAT :: string where "DEFAULT_FORMAT = ''json''"

definition new_TlsOptions :: TlsOptions where
  "new_TlsOptions =
     \<lparr>tls_locked = False, enabled = False, caCertPath = None, clientCertPath = None,
      clientKeyPath = None\<rparr>"

definition new_Options :: Options where
  "new_Options =
     \<lparr>address = DEFAULT_ADDRESS, requestTimeoutInMillis = Millis DEFAULT_REQUEST_TIMEOUT,
      format = DEFAULT_FORMAT, callOptions = 0, locked = False, tls = new_TlsOptions\<rparr>"

text \<open>
  \<open>ADDRESS_REGEXP = RegExp('\\S+:\\d{1,5}$')\<close>, tested with \<open>test\<close>: somewhere in the string
  there is a character that is not white space, then a colon, then one to five digits,
  then the end of the string.  The digits matched are the whole run of digits that ends
  the string, since the character before them is the colon.  Characters are single bytes
  here; the white space of a regular expression among them is tab, line feed, vertical
  tab, form feed, carriage return, space and no-break space.
\<close>

definition is_digit :: "char \<Rightarrow> bool" where
  "is_digit c = (48 \<le> (of_char c :: nat) \<and> (of_char c :: nat) \<le> 57)"

definition is_whitespace :: "char \<Rightarrow> bool" where
  "is_whitespace c = ((of_char c :: nat) \<in> {9, 10, 11, 12, 13, 32, 160})"

definition ADDRESS_REGEXP_test :: "string \<Rightarrow> bool" where
  "ADDRESS_REGEXP_test a =
     (let r = rev a; ds = takeWhile is_digit r; rest = dropWhile is_digit r
      in 1 \<le> length ds \<and> length ds \<le> 5 \<and>
         (case rest of
            c # b # _ \<Rightarrow> c = CHR '':'' \<and> \<not> is_whitespace b
          | _ \<Rightarrow> False))"

datatype session_error =
    BadAddress string
  | TlsPathUndefined string
  | ReadFileFailed string
  | SessionClosing
  | SessionClosed
  | NoSerializer string

text \<open>The setters.  A locked object ignores the assignment.\<close>

definition set_address :: "Options \<Rightarrow> string \<Rightarrow> session_error + Options" where
  "set_address opts a =
     (if locked opts then Inr opts
      else if \<not> ADDRESS_REGEXP_test a then Inl (BadAddress a)
      else Inr (opts\<lparr>address := a\<rparr>))"

definition set_requestTimeoutInMillis :: "Options \<Rightarrow> int \<Rightarrow> Options" where
  "set_requestTimeoutInMillis opts timeout =
     (if locked opts then opts
      else opts\<lparr>requestTimeoutInMillis :=
             (if timeout \<le> 0 then POSITIVE_INFINITY else Millis timeout)\<rparr>)"

definition set_callOptions :: "Options \<Rightarrow> nat \<Rightarrow> Options" where
  "set_callOptions opts f = (if locked opts then opts else opts\<lparr>callOptions := f\<rparr>)"

definition set_enabled :: "TlsOptions \<Rightarrow> bool \<Rightarrow> TlsOptions" where
  "set_enabled t v = (if tls_locked t then t else t\<lparr>enabled := v\<rparr>)"

definition set_caCertPath :: "TlsOptions \<Rightarrow> string option \<Rightarrow> TlsOptions" where
  "set_caCertPath t v = (if tls_locked t then t else t\<lparr>caCertPath := v\<rparr>)"

definition set_clientCertPath :: "TlsOptions \<Rightarrow> string option \<Rightarrow> TlsOptions" where
  "set_clientCertPath t v = (if tls_locked t then t else t\<lparr>clientCertPath := v\<rparr>)"

definition set_clientKeyPath :: "TlsOptions \<Rightarrow> string option \<Rightarrow> TlsOptions" where
  "set_clientKeyPath t v = (if tls_locked t then t else t\<lparr>clientKeyPath := v\<rparr>)"

definition TlsOptions_lock :: "TlsOptions \<Rightarrow> TlsOptions" where
  "TlsOptions_lock t = t\<lparr>tls_locked := True\<rparr>"

definition Options_lock :: "Options \<Rightarrow> Options" where
  "Options_lock opts = opts\<lparr>locked := True, tls := TlsOptions_lock (tls opts)\<rparr>"

section \<open>Session (class \<open>Session\<close>)\<close>

text \<open>A serializer, known by its format.  The registry \<open>util.SerializerRegistry\<close> is a
  parameter of \<open>getCache\<close>: \<open>None\<close> is a format for which the lookup throws.\<close>

datatype serializer = Serializer (ser_format: string)

text \<open>A \<open>NamedCacheClient\<close> as the session sees it: the identity of the object (the
  count of objects created before it), its name and its serializer.\<close>

record NamedCacheClient =
  cache_id :: nat
  cache_name :: string
  cache_serializer :: serializer

datatype credentials =
    Insecure
  | Ssl string string string

datatype session_event =
    RELEASED string string
  | DESTROYED string
  | CLOSED

text \<open>What an observer of the session sees, in order: events the session emits, calls of
  \<open>release\<close> on a cache, and calls of \<open>close\<close> on the channel.\<close>

datatype session_action =
    Emit session_event
  | Cache_release nat
  | Channel_close

text \<open>\<open>channel\<close> is the address the channel was created for; \<open>sessionClosedPromise\<close> is
  whether that promise has been resolved.  \<open>sessionOptions\<close> is the object handed to the
  constructor, not a copy of it.\<close>

record Session =
  markedForClose :: bool
  closed :: bool
  caches :: "(string \<times> NamedCacheClient) list"
  sessionOptions :: Options
  channelCredentials :: credentials
  channel :: string
  sessionClosedPromise :: bool
  next_cache_id :: nat
  log :: "session_action list"

definition DEFAULT_OPTIONS :: Options where
  "DEFAULT_OPTIONS = new_Options"

text \<open>\<open>Session.readFile\<close>; \<open>readFileSync\<close> is a parameter, \<open>None\<close> where it throws.  An
  undefined or empty path is falsy.\<close>

definition Session_readFile ::
  "(string \<Rightarrow> string option) \<Rightarrow> string \<Rightarrow> string option \<Rightarrow> session_error + string" where
  "Session_readFile readFileSync certType nameOrURL =
     (case nameOrURL of
        None \<Rightarrow> Inl (TlsPathUndefined certType)
      | Some path \<Rightarrow>
          (if path = [] then Inl (TlsPathUndefined certType)
           else (case readFileSync path of
                   None \<Rightarrow> Inl (ReadFileFailed path)
                 | Some contents \<Rightarrow> Inr contents)))"

definition createCredentials ::
  "(string \<Rightarrow> string option) \<Rightarrow> Options \<Rightarrow> session_error + credentials" where
  "createCredentials readFileSync opts =
     (if enabled (tls opts) then
        (case Session_readFile readFileSync ''caCert'' (caCertPath (tls opts)) of
           Inl e \<Rightarrow> Inl e
         | Inr ca \<Rightarrow>
            (case Session_readFile readFileSync ''clientKey'' (clientKeyPath (tls opts)) of
               Inl e \<Rightarrow> Inl e
             | Inr key \<Rightarrow>
                (case Session_readFile readFileSync ''clientCert'' (clientCertPath (tls opts)) of
                   Inl e \<Rightarrow> Inl e
                 | Inr cert \<Rightarrow> Inr (Ssl ca key cert))))
      else Inr Insecure)"

text \<open>The constructor of \<open>Session\<close>.\<close>

definition new_Session ::
  "(string \<Rightarrow> string option) \<Rightarrow> Options option \<Rightarrow> session_error + Session" where
  "new_Session readFileSync sessionOptions_arg =
     (let opts = (case sessionOptions_arg of Some given \<Rightarrow> given | None \<Rightarrow> DEFAULT_OPTIONS)
      in case createCredentials readFileSync opts of
           Inl e \<Rightarrow> Inl e
         | Inr creds \<Rightarrow>
             Inr \<lparr>markedForClose = False, closed = False, caches = [],
                  sessionOptions = opts, channelCredentials = creds,
                  channel = address opts, sessionClosedPromise = False,
                  next_cache_id = 0, log = []\<rparr>)"

text \<open>The getters \<open>options\<close> and \<open>address\<close> of a session.\<close>

definition options :: "Session \<Rightarrow> Options" where
  "options s = sessionOptions s"

definition Session_address :: "Session \<Rightarrow> string" where
  "Session_address s = address (sessionOptions s)"

text \<open>An assignment \<open>session.options.address = a\<close>: the setter runs on the object the
  session holds.\<close>

definition assign_options_address :: "Session \<Rightarrow> string \<Rightarrow> session_error + Session" where
  "assign_options_address s a =
     (case set_address (options s) a of
        Inl e \<Rightarrow> Inl e
      | Inr opts \<Rightarrow> Inr (s\<lparr>sessionOptions := opts\<rparr>))"

text \<open>The three listeners the constructor registers on the session (for \<open>RELEASED\<close>,
  \<open>DESTROYED\<close> and \<open>CLOSED\<close>) have the same body.\<close>

definition on_lifecycle_event :: "Session \<Rightarrow> Session" where
  "on_lifecycle_event s =
     (if markedForClose s \<and> jsmap_size (caches s) = 0
      then s\<lparr>closed := True, sessionClosedPromise := True\<rparr>
      else s)"

definition emit :: "Session \<Rightarrow> session_event \<Rightarrow> Session" where
  "emit s ev = on_lifecycle_event (s\<lparr>log := log s @ [Emit ev]\<rparr>)"

definition makeCacheKey :: "string \<Rightarrow> string \<Rightarrow> string" where
  "makeCacheKey cacheName fmt = cacheName @ '':'' @ fmt"




definition cache_on_RELEASED :: "Session \<Rightarrow> string \<Rightarrow> string \<Rightarrow> Session" where
  "cache_on_RELEASED s cacheName fmt =
     emit (s\<lparr>caches := jsmap_delete (caches s) (makeCacheKey cacheName fmt)\<rparr>)
       (RELEASED cacheName fmt)"

text \<open>\<open>getCache\<close>; the new object takes the next identity.\<close>

definition getCache ::
  "(string \<Rightarrow> serializer option) \<Rightarrow> Session \<Rightarrow> string \<Rightarrow> string
     \<Rightarrow> session_error + (NamedCacheClient \<times> Session)" where
  "getCache registry s name fmt =
     (if markedForClose s then Inl SessionClosing
      else if closed s then Inl SessionClosed
      else
        (let cacheKey = makeCacheKey name fmt in
         case registry fmt of
           None \<Rightarrow> Inl (NoSerializer fmt)
         | Some ser \<Rightarrow>
             (case jsmap_get (caches s) cacheKey of
                Some namedCache \<Rightarrow> Inr (namedCache, s)
              | None \<Rightarrow>
                  (let namedCache =
                         \<lparr>cache_id = next_cache_id s, cache_name = name, cache_serializer = ser\<rparr>
                   in Inr (namedCache,
                           s\<lparr>caches := jsmap_set (caches s) cacheKey namedCache,
                             next_cache_id := next_cache_id s + 1\<rparr>)))))"

text \<open>
  Modelled from the spec: \<open>NamedCacheClient.release\<close> (the TypeScript class is not among
  the sources).  Section 4.5: \<open>release()\<close> severs the event stream and emits \<open>released\<close>.
  The event carries the name and the format of the cache, which is what the listener of
  \<open>setupEventHandlers\<close> takes.
\<close>

definition NamedCacheClient_release :: "Session \<Rightarrow> NamedCacheClient \<Rightarrow> Session" where
  "NamedCacheClient_release s c =
     cache_on_RELEASED (s\<lparr>log := log s @ [Cache_release (cache_id c)]\<rparr>)
       (cache_name c) (ser_format (cache_serializer c))"

text \<open>The loop of \<open>close\<close> over \<open>this.caches.entries()\<close>; again only entries still in the
  map are visited.\<close>

fun release_loop :: "Session \<Rightarrow> (string \<times> NamedCacheClient) list \<Rightarrow> Session" where
  "release_loop s [] = s"
| "release_loop s (entry # entries) =
     (if jsmap_get (caches s) (fst entry) = Some (snd entry)
      then release_loop (NamedCacheClient_release s (snd entry)) entries
      else release_loop s entries)"

definition close :: "Session \<Rightarrow> Session" where
  "close s =
     (if markedForClose s then s
      else
        (let s1 = s\<lparr>markedForClose := True\<rparr>;
             s2 = release_loop s1 (caches s1);
             s3 = s2\<lparr>log := log s2 @ [Channel_close]\<rparr>
         in emit s3 CLOSED))"

text \<open>How often the session has emitted \<open>closed\<close>, released a cache, closed the channel.\<close>

definition closed_emissions :: "Session \<Rightarrow> nat" where
  "closed_emissions s = length (filter (\<lambda>a. a = Emit CLOSED) (log s))"

definition channel_closes :: "Session \<Rightarrow> nat" where
  "channel_closes s = length (filter (\<lambda>a. a = Channel_close) (log s))"

text \<open>
  The registry of a session built by \<open>getCache\<close>: every cache is stored under the key made
  of its own name and format, and no key occurs twice.
\<close>

definition registry_keys_ok :: "(string \<times> NamedCacheClient) list \<Rightarrow> bool" where
  "registry_keys_ok m =
     (distinct (map fst m) \<and>
      list_all (\<lambda>e. fst e = makeCacheKey (cache_name (snd e)) (ser_format (cache_serializer (snd e)))) m)"

section \<open>Event dispatcher (classes \<open>MapEventsManager\<close> and \<open>ListenerGroup\<close>)\<close>

subsection \<open>Messages\<close>

text \<open>A \<open>MapListener\<close> object, known by its identity.\<close>

type_synonym listener = nat

text \<open>What a group listens to, \<open>K | MapEventFilter\<close>.  A \<open>KeyListenerGroup\<close> holds a
  \<open>Key\<close>, a \<open>FilterListenerGroup\<close> holds a \<open>Flt\<close>.\<close>

datatype target =
    Key jsvalue
  | Flt filter

text \<open>
  The kind of a map event and the event itself.  The class \<open>MapEvent\<close> is not among the
  sources; by the data model of the spec (section 3) an event has one of three kinds, a
  key, an old and a new value and the ids of the filters that matched.
\<close>

datatype event_id =
    ENTRY_INSERTED
  | ENTRY_UPDATED
  | ENTRY_DELETED

record MapEvent =
  ev_id :: event_id
  ev_key :: jsvalue
  ev_oldValue :: jsvalue
  ev_newValue :: jsvalue
  ev_filterIds :: "nat list"

text \<open>A \<open>MapListenerRequest\<close>: \<open>req_target\<close> is \<open>None\<close> for the \<open>INIT\<close> request.\<close>

datatype request =
  Request (uid: string) (subscribe: bool) (req_target: "target option") (lite: bool)
    (filterid: nat)

text \<open>
  A \<open>MapListenerResponse\<close>, by \<open>getResponseTypeCase()\<close>.  The uid of a \<open>SUBSCRIBED\<close> or
  \<open>UNSUBSCRIBED\<close> response is the empty string when the message carries none;
  \<open>Resp_EVENT None\<close> is an \<open>EVENT\<close> response without event.
\<close>

datatype response =
    Resp_SUBSCRIBED string
  | Resp_UNSUBSCRIBED string
  | Resp_DESTROYED
  | Resp_TRUNCATED
  | Resp_EVENT "MapEvent option"
  | Resp_NOT_SET

text \<open>What the dispatcher emits on its \<open>namedCache\<close>.  The flag of \<open>Emit_closed\<close> is whether
  the extra argument \<open>true\<close> is passed.\<close>

datatype cache_event =
    Emit_closed string bool
  | Emit_error string error
  | Emit_cancel string
  | Emit_destroyed string
  | Emit_truncated string

datatype listener_method =
    entryInserted
  | entryUpdated
  | entryDeleted

text \<open>
  What the dispatcher does, in order: opening the stream (\<open>client.events()\<close>), writing to
  it, cancelling it, \<open>set\<close> and \<open>delete\<close> on \<open>pendingSubscriptions\<close>, settling the promise
  of a request (\<open>None\<close>: resolved; \<open>Some err\<close>: rejected), emitting on the cache, and calling
  a method of a listener.
\<close>

datatype action =
    Open_stream
  | Write request
  | Cancel_stream
  | Pending_set string
  | Pending_delete string
  | Settled string "error option"
  | Emitted cache_event
  | Invoke listener listener_method MapEvent

subsection \<open>Listener groups\<close>

record ListenerGroup =
  isActive :: bool
  keyOrFilter :: target
  registeredIsLite :: bool
  listeners :: "(listener \<times> bool) list"
  isLiteFalseCount :: int

definition new_ListenerGroup :: "target \<Rightarrow> ListenerGroup" where
  "new_ListenerGroup t =
     \<lparr>isActive = True, keyOrFilter = t, registeredIsLite = True, listeners = [],
      isLiteFalseCount = 0\<rparr>"

text \<open>The calls a group makes on itself after it has updated its fields:
  \<open>doUnsubscribe(closeStreamIfPossible)\<close> and \<open>doSubscribe(isLite)\<close>.\<close>

datatype group_call =
    DoUnsubscribe bool
  | DoSubscribe bool

text \<open>
  \<open>ListenerGroup.addListener\<close>: the group after the method has updated its fields, and
  the calls it then awaits, in order.  All field updates precede the first \<open>await\<close>.
\<close>

definition addListener :: "ListenerGroup \<Rightarrow> listener \<Rightarrow> bool \<Rightarrow> ListenerGroup \<times> group_call list" where
  "addListener g listener isLite =
     (let prevStatus = jsmap_get (listeners g) listener in
      if prevStatus = Some isLite then (g, [])
      else
        (let g1 = g\<lparr>listeners := jsmap_set (listeners g) listener isLite\<rparr>;
             g2 = (if \<not> isLite then g1\<lparr>isLiteFalseCount := isLiteFalseCount g1 + 1\<rparr> else g1);
             requireRegistrationRequest =
               (jsmap_size (listeners g2) = 1 \<or> (registeredIsLite g2 = True \<and> isLite = False))
         in if requireRegistrationRequest then
              (g2\<lparr>registeredIsLite := isLite\<rparr>,
               (if jsmap_size (listeners g2) > 1 then [DoUnsubscribe False] else [])
                 @ [DoSubscribe isLite])
            else (g2, [])))"

text \<open>\<open>ListenerGroup.removeListener\<close>, in the same form.\<close>

definition removeListener :: "ListenerGroup \<Rightarrow> listener \<Rightarrow> ListenerGroup \<times> group_call list" where
  "removeListener g listener =
     (case jsmap_get (listeners g) listener of
        None \<Rightarrow> (g, [])
      | Some prevIsLite \<Rightarrow>
          (if jsmap_size (listeners g) = 0 then (g, [])
           else
             (let g1 = g\<lparr>listeners := jsmap_delete (listeners g) listener\<rparr> in
              if jsmap_size (listeners g1) = 0 then (g1, [DoUnsubscribe True])
              else if prevIsLite = False then
                (let g2 = g1\<lparr>isLiteFalseCount := isLiteFalseCount g1 - 1\<rparr> in
                 if isLiteFalseCount g2 = 0 then (g2, [DoUnsubscribe False, DoSubscribe True])
                 else (g2, []))
              else (g1, []))))"

definition method_for :: "event_id \<Rightarrow> listener_method" where
  "method_for i =
     (case i of
        ENTRY_DELETED \<Rightarrow> entryDeleted
      | ENTRY_INSERTED \<Rightarrow> entryInserted
      | ENTRY_UPDATED \<Rightarrow> entryUpdated)"

text \<open>
  \<open>ListenerGroup.notifyListeners\<close>: the calls it makes, in the order of
  \<open>this.listeners.keys()\<close>.  A listener's method is application code; here it returns
  normally and does not call back into the dispatcher.
\<close>

definition notifyListeners :: "ListenerGroup \<Rightarrow> MapEvent \<Rightarrow> action list" where
  "notifyListeners g mapEvent =
     map (\<lambda>listener. Invoke listener (method_for (ev_id mapEvent)) mapEvent)
       (jsmap_keys (listeners g))"

subsection \<open>The dispatcher\<close>

text \<open>The state of the promise \<open>streamPromise\<close>.\<close>

datatype stream_promise =
    StreamPending
  | StreamResolved
  | StreamRejected error

text \<open>
  A callback stored in \<open>pendingSubscriptions\<close>: the one \<open>ensureStream\<close> stores, which
  settles the stream promise made by the same call (known by its number), or the one
  \<open>writeRequest\<close> stores for a request.
\<close>

datatype callback =
    InitCallback nat
  | RequestCallback request

text \<open>
  \<open>streamPromise\<close> is \<open>None\<close> when the field is \<open>null\<close>, else the number of the promise and
  its state.  \<open>groups\<close> is the store of the group objects, which the three maps refer to by
  number.  \<open>requests\<close> is the counter of the request factory.  The field \<open>debugLevel\<close> only
  controls printing and is left out.
\<close>

record MapEventsManager =
  cacheName :: string
  streamPromise :: "(nat \<times> stream_promise) option"
  next_promise :: nat
  markedForClose_events :: bool
  pendingSubscriptions :: "(string \<times> callback) list"
  keyMap :: "(string \<times> nat) list"
  filterMap :: "(string \<times> nat) list"
  filterId2ListenerGroup :: "(nat \<times> nat) list"
  groups :: "nat \<Rightarrow> ListenerGroup"
  next_group :: nat
  requests :: nat
  trace :: "action list"

definition new_MapEventsManager :: "string \<Rightarrow> MapEventsManager" where
  "new_MapEventsManager name =
     \<lparr>cacheName = name, streamPromise = None, next_promise = 0,
      markedForClose_events = False, pendingSubscriptions = [], keyMap = [], filterMap = [],
      filterId2ListenerGroup = [], groups = (\<lambda>_. new_ListenerGroup (Key JNull)),
      next_group = 0, requests = 0, trace = []\<rparr>"

definition DEFAULT_FILTER :: filter where
  "DEFAULT_FILTER = MapEventFilter (AFilter Filters_always) None"

text \<open>The decimal digits of a number, most significant first, and the text made of
  them, for the uid of a request.\<close>

function decimal_digits :: "nat \<Rightarrow> nat list" where
  "decimal_digits n =
     (if n div 10 = 0 then [n] else decimal_digits (n div 10) @ [n mod 10])"
  by pat_completeness auto
termination
  by (relation "measure id") (auto intro: div_less_dividend)

declare decimal_digits.simps [simp del]

definition string_of_nat :: "nat \<Rightarrow> string" where
  "string_of_nat n = map (\<lambda>d. char_of (d + 48)) (decimal_digits n)"

text \<open>
  Modelled from the spec: class \<open>RequestFactory\<close> (\<open>request_factory.ts\<close> is not among the
  sources).  Section 4.4: a subscription request carries a fresh correlation id, for
  which a counter per dispatcher suffices, the target, the subscribe flag and the lite
  flag.  The filter id of a request for a filter is drawn from the same counter.
\<close>

definition mapEventSubscribe :: "nat \<Rightarrow> request" where
  "mapEventSubscribe n = Request (string_of_nat n) True None False 0"

definition mapListenerRequest :: "nat \<Rightarrow> bool \<Rightarrow> target \<Rightarrow> bool \<Rightarrow> request" where
  "mapListenerRequest n sub t isLite =
     Request (string_of_nat n) sub (Some t) isLite (case t of Flt _ \<Rightarrow> n | Key _ \<Rightarrow> 0)"

definition record_action :: "MapEventsManager \<Rightarrow> action \<Rightarrow> MapEventsManager" where
  "record_action m a = m\<lparr>trace := trace m @ [a]\<rparr>"

definition pending_set :: "MapEventsManager \<Rightarrow> string \<Rightarrow> callback \<Rightarrow> MapEventsManager" where
  "pending_set m u cb =
     record_action (m\<lparr>pendingSubscriptions := jsmap_set (pendingSubscriptions m) u cb\<rparr>)
       (Pending_set u)"

definition pending_delete :: "MapEventsManager \<Rightarrow> string \<Rightarrow> MapEventsManager" where
  "pending_delete m u =
     record_action (m\<lparr>pendingSubscriptions := jsmap_delete (pendingSubscriptions m) u\<rparr>)
       (Pending_delete u)"

text \<open>
  \<open>ensureStream\<close>, up to its \<open>return\<close>: when \<open>streamPromise\<close> is \<open>null\<close> the stream is
  opened, and the executor of the new promise stores the callback for the \<open>INIT\<close> request
  and then writes the request.
\<close>

definition ensureStream :: "MapEventsManager \<Rightarrow> MapEventsManager" where
  "ensureStream m =
     (if streamPromise m = None then
        (let m1 = record_action m Open_stream;
             request = mapEventSubscribe (requests m1);
             m2 = m1\<lparr>requests := requests m1 + 1\<rparr>;
             initUid = uid request;
             m3 = pending_set m2 initUid (InitCallback (next_promise m2));
             m4 = record_action m3 (Write request)
         in m4\<lparr>streamPromise := Some (next_promise m4, StreamPending),
               next_promise := next_promise m4 + 1\<rparr>)
      else m)"

text \<open>
  The function \<open>writeRequest\<close> passes to \<open>then\<close>, which runs once the stream promise is
  resolved: it stores the callback of the request and then writes the request.
\<close>

definition writeRequest_then :: "MapEventsManager \<Rightarrow> request \<Rightarrow> MapEventsManager" where
  "writeRequest_then m request =
     (let m1 = pending_set m (uid request) (RequestCallback request)
      in record_action m1 (Write request))"

text \<open>
  A callback of \<open>pendingSubscriptions\<close> called with \<open>(uid, resp, err)\<close>.  Both delete the
  uid once more, then settle their promise.  The callback of \<open>ensureStream\<close> settles the
  promise it was made with; the field \<open>streamPromise\<close> shows that only while it still
  holds that promise.
\<close>

definition call_callback ::
  "MapEventsManager \<Rightarrow> callback \<Rightarrow> string \<Rightarrow> error option \<Rightarrow> MapEventsManager" where
  "call_callback m cb u err =
     (let m1 = pending_delete m u in
      case cb of
        InitCallback p \<Rightarrow>
          (if streamPromise m1 = Some (p, StreamPending) then
             m1\<lparr>streamPromise :=
                  Some (p, case err of Some e \<Rightarrow> StreamRejected e | None \<Rightarrow> StreamResolved)\<rparr>
           else m1)
      | RequestCallback request \<Rightarrow> record_action m1 (Settled (uid request) err))"

definition onError :: "MapEventsManager \<Rightarrow> error \<Rightarrow> MapEventsManager" where
  "onError m err =
     (if markedForClose_events m then
        record_action (m\<lparr>markedForClose_events := False\<rparr>) (Emitted (Emit_closed (cacheName m) True))
      else record_action m (Emitted (Emit_error (cacheName m) err)))"

definition onEnd :: "MapEventsManager \<Rightarrow> MapEventsManager" where
  "onEnd m = record_action m (Emitted (Emit_closed (cacheName m) False))"

definition onCancel :: "MapEventsManager \<Rightarrow> MapEventsManager" where
  "onCancel m =
     (if markedForClose_events m then
        record_action (m\<lparr>markedForClose_events := False\<rparr>) (Emitted (Emit_closed (cacheName m) True))
      else record_action m (Emitted (Emit_cancel ''** Received onCancel'')))"

text \<open>The loop of \<open>handleResponse\<close> over \<open>event.getFilteridsList()\<close>.\<close>

fun notify_filter_groups :: "MapEventsManager \<Rightarrow> nat list \<Rightarrow> MapEvent \<Rightarrow> MapEventsManager" where
  "notify_filter_groups m [] mapEvent = m"
| "notify_filter_groups m (i # ids) mapEvent =
     (case jsmap_get (filterId2ListenerGroup m) i of
        Some g \<Rightarrow>
          notify_filter_groups (m\<lparr>trace := trace m @ notifyListeners (groups m g) mapEvent\<rparr>)
            ids mapEvent
      | None \<Rightarrow> notify_filter_groups m ids mapEvent)"

text \<open>\<open>handleResponse\<close>.  \<open>stringify\<close> (that is, \<open>JSON.stringify\<close>) is a parameter.\<close>

definition handleResponse ::
  "(target \<Rightarrow> string) \<Rightarrow> MapEventsManager \<Rightarrow> response \<Rightarrow> MapEventsManager" where
  "handleResponse stringify m resp =
     (case resp of
        Resp_SUBSCRIBED u \<Rightarrow>
          (if u \<noteq> [] then
             (let callback = jsmap_get (pendingSubscriptions m) u;
                  m1 = pending_delete m u
              in case callback of Some cb \<Rightarrow> call_callback m1 cb u None | None \<Rightarrow> m1)
           else m)
      | Resp_UNSUBSCRIBED u \<Rightarrow>
          (if u \<noteq> [] then
             (let callback = jsmap_get (pendingSubscriptions m) u;
                  m1 = pending_delete m u
              in case callback of Some cb \<Rightarrow> call_callback m1 cb u None | None \<Rightarrow> m1)
           else m)
      | Resp_DESTROYED \<Rightarrow> record_action m (Emitted (Emit_destroyed (cacheName m)))
      | Resp_TRUNCATED \<Rightarrow> record_action m (Emitted (Emit_truncated (cacheName m)))
      | Resp_EVENT None \<Rightarrow> m
      | Resp_EVENT (Some mapEvent) \<Rightarrow>
          (let m1 = notify_filter_groups m (ev_filterIds mapEvent) mapEvent;
               stringifiedKey = stringify (Key (ev_key mapEvent))
           in case jsmap_get (keyMap m1) stringifiedKey of
                Some keyGroup \<Rightarrow> m1\<lparr>trace := trace m1 @ notifyListeners (groups m1 keyGroup) mapEvent\<rparr>
              | None \<Rightarrow> m1)
      | Resp_NOT_SET \<Rightarrow> m)"

text \<open>
  \<open>MapEventsManager.close\<close>.  It awaits the stream promise before it cancels; the second
  component is whether the method ran to its end.  On a resolved promise the part after
  the \<open>await\<close> is taken to run at once.  On a pending promise the method stops at the
  \<open>await\<close> with \<open>markedForClose\<close> set; on a rejected promise the \<open>await\<close> throws.
\<close>

definition MapEventsManager_close :: "MapEventsManager \<Rightarrow> MapEventsManager \<times> bool" where
  "MapEventsManager_close m =
     (case streamPromise m of
        None \<Rightarrow> (m\<lparr>streamPromise := None\<rparr>, True)
      | Some (p, StreamResolved) \<Rightarrow>
          ((record_action (m\<lparr>markedForClose_events := True\<rparr>) Cancel_stream)
             \<lparr>streamPromise := None\<rparr>, True)
      | Some (p, StreamPending) \<Rightarrow> (m\<lparr>markedForClose_events := True\<rparr>, False)
      | Some (p, StreamRejected e) \<Rightarrow> (m\<lparr>markedForClose_events := True\<rparr>, False))"

text \<open>\<open>checkAndCloseEventStream\<close> calls \<open>close\<close> without awaiting it.\<close>

definition checkAndCloseEventStream :: "MapEventsManager \<Rightarrow> MapEventsManager" where
  "checkAndCloseEventStream m =
     (if jsmap_size (filterMap m) = 0 \<and> jsmap_size (keyMap m) = 0
      then fst (MapEventsManager_close m) else m)"

definition keyGroupUnsubscribed ::
  "(target \<Rightarrow> string) \<Rightarrow> MapEventsManager \<Rightarrow> jsvalue \<Rightarrow> MapEventsManager" where
  "keyGroupUnsubscribed stringify m key =
     checkAndCloseEventStream (m\<lparr>keyMap := jsmap_delete (keyMap m) (stringify (Key key))\<rparr>)"

definition filterGroupSubscribed :: "MapEventsManager \<Rightarrow> nat \<Rightarrow> nat \<Rightarrow> MapEventsManager" where
  "filterGroupSubscribed m filterId g =
     m\<lparr>filterId2ListenerGroup := jsmap_set (filterId2ListenerGroup m) filterId g\<rparr>"

definition filterGroupUnsubscribed ::
  "(target \<Rightarrow> string) \<Rightarrow> MapEventsManager \<Rightarrow> nat \<Rightarrow> filter \<Rightarrow> MapEventsManager" where
  "filterGroupUnsubscribed stringify m filterId flt =
     checkAndCloseEventStream
       (m\<lparr>filterId2ListenerGroup := jsmap_delete (filterId2ListenerGroup m) filterId,
          filterMap := jsmap_delete (filterMap m) (stringify (Flt flt))\<rparr>)"

text \<open>
  \<open>postSubscribe\<close> and \<open>postUnsubscribe\<close> of the two subclasses.  A key group reads the key
  back from the request (\<open>Serializer.deserialize(request.getKey())\<close>), which is the key the
  request was built from.
\<close>

definition postSubscribe :: "MapEventsManager \<Rightarrow> nat \<Rightarrow> request \<Rightarrow> MapEventsManager" where
  "postSubscribe m g request =
     (case keyOrFilter (groups m g) of
        Key _ \<Rightarrow> m
      | Flt _ \<Rightarrow> filterGroupSubscribed m (filterid request) g)"

definition postUnsubscribe ::
  "(target \<Rightarrow> string) \<Rightarrow> MapEventsManager \<Rightarrow> nat \<Rightarrow> request \<Rightarrow> MapEventsManager" where
  "postUnsubscribe stringify m g request =
     (case keyOrFilter (groups m g) of
        Key _ \<Rightarrow>
          (case req_target request of
             Some (Key key) \<Rightarrow> keyGroupUnsubscribed stringify m key
           | _ \<Rightarrow> m)
      | Flt flt \<Rightarrow> filterGroupUnsubscribed stringify m (filterid request) flt)"

subsection \<open>Runs in which the server acknowledges\<close>

text \<open>
  The methods below \<open>await\<close> the server.  They are modelled on the run in which the server
  answers every request with the matching \<open>SUBSCRIBED\<close> or \<open>UNSUBSCRIBED\<close> response before
  anything else happens.  The second component of a result is whether the method ran to
  its end: it does not when the stream promise is pending from an earlier call or
  rejected.
\<close>

definition writeRequest_acknowledged ::
  "(target \<Rightarrow> string) \<Rightarrow> MapEventsManager \<Rightarrow> request \<Rightarrow> MapEventsManager \<times> bool" where
  "writeRequest_acknowledged stringify m request =
     (let m1 = ensureStream m;
          m2 = (if streamPromise m = None
                then handleResponse stringify m1 (Resp_SUBSCRIBED (uid (mapEventSubscribe (requests m))))
                else m1)
      in case streamPromise m2 of
           Some (p, StreamResolved) \<Rightarrow>
             (let m3 = writeRequest_then m2 request;
                  m4 = handleResponse stringify m3
                         (if subscribe request then Resp_SUBSCRIBED (uid request)
                          else Resp_UNSUBSCRIBED (uid request))
              in (m4, True))
         | _ \<Rightarrow> (m2, False))"

definition doSubscribe ::
  "(target \<Rightarrow> string) \<Rightarrow> MapEventsManager \<Rightarrow> nat \<Rightarrow> bool \<Rightarrow> MapEventsManager \<times> bool" where
  "doSubscribe stringify m g isLite =
     (let request = mapListenerRequest (requests m) True (keyOrFilter (groups m g)) isLite;
          m1 = m\<lparr>requests := requests m + 1\<rparr>;
          (m2, done) = writeRequest_acknowledged stringify m1 request
      in if done then (postSubscribe m2 g request, True) else (m2, False))"

definition doUnsubscribe ::
  "(target \<Rightarrow> string) \<Rightarrow> MapEventsManager \<Rightarrow> nat \<Rightarrow> bool \<Rightarrow> MapEventsManager \<times> bool" where
  "doUnsubscribe stringify m g closeStreamIfPossible =
     (let request = mapListenerRequest (requests m) False (keyOrFilter (groups m g)) False;
          m1 = m\<lparr>requests := requests m + 1\<rparr>;
          (m2, done) = writeRequest_acknowledged stringify m1 request
      in if done then
           (let m3 = postUnsubscribe stringify m2 g request
            in (if closeStreamIfPossible then checkAndCloseEventStream m3 else m3, True))
         else (m2, False))"

text \<open>The awaited calls of a group, one after the other; a call that does not run to its
  end stops the method.\<close>

fun group_calls ::
  "(target \<Rightarrow> string) \<Rightarrow> MapEventsManager \<Rightarrow> nat \<Rightarrow> group_call list \<Rightarrow> MapEventsManager \<times> bool" where
  "group_calls stringify m g [] = (m, True)"
| "group_calls stringify m g (c # cs) =
     (let (m1, done) =
            (case c of
               DoUnsubscribe closeStreamIfPossible \<Rightarrow> doUnsubscribe stringify m g closeStreamIfPossible
             | DoSubscribe isLite \<Rightarrow> doSubscribe stringify m g isLite)
      in if done then group_calls stringify m1 g cs else (m1, False))"

definition group_addListener ::
  "(target \<Rightarrow> string) \<Rightarrow> MapEventsManager \<Rightarrow> nat \<Rightarrow> listener \<Rightarrow> bool \<Rightarrow> MapEventsManager \<times> bool" where
  "group_addListener stringify m g listener isLite =
     (let (group, calls) = addListener (groups m g) listener isLite
      in group_calls stringify (m\<lparr>groups := (groups m)(g := group)\<rparr>) g calls)"

definition group_removeListener ::
  "(target \<Rightarrow> string) \<Rightarrow> MapEventsManager \<Rightarrow> nat \<Rightarrow> listener \<Rightarrow> MapEventsManager \<times> bool" where
  "group_removeListener stringify m g listener =
     (let (group, calls) = removeListener (groups m g) listener
      in group_calls stringify (m\<lparr>groups := (groups m)(g := group)\<rparr>) g calls)"

text \<open>A new group object takes the next number of the store.\<close>

definition new_group :: "MapEventsManager \<Rightarrow> target \<Rightarrow> MapEventsManager" where
  "new_group m t =
     m\<lparr>groups := (groups m)(next_group m := new_ListenerGroup t), next_group := next_group m + 1\<rparr>"

definition registerKeyListener ::
  "(target \<Rightarrow> string) \<Rightarrow> MapEventsManager \<Rightarrow> listener \<Rightarrow> jsvalue \<Rightarrow> bool \<Rightarrow> MapEventsManager \<times> bool" where
  "registerKeyListener stringify m listener key isLite =
     (let stringifiedKey = stringify (Key key) in
      case jsmap_get (keyMap m) stringifiedKey of
        Some g \<Rightarrow> group_addListener stringify m g listener isLite
      | None \<Rightarrow>
          (let g = next_group m;
               m1 = new_group m (Key key);
               m2 = m1\<lparr>keyMap := jsmap_set (keyMap m1) stringifiedKey g\<rparr>
           in group_addListener stringify m2 g listener isLite))"

definition removeKeyListener ::
  "(target \<Rightarrow> string) \<Rightarrow> MapEventsManager \<Rightarrow> listener \<Rightarrow> jsvalue \<Rightarrow> MapEventsManager \<times> bool" where
  "removeKeyListener stringify m listener key =
     (let stringifiedKey = stringify (Key key) in
      case jsmap_get (keyMap m) stringifiedKey of
        Some g \<Rightarrow> group_removeListener stringify m g listener
      | None \<Rightarrow> (m, True))"

text \<open>The filter a \<open>null\<close> argument stands for.\<close>

definition filter_or_default :: "filter option \<Rightarrow> filter" where
  "filter_or_default mapFilter = (case mapFilter of None \<Rightarrow> DEFAULT_FILTER | Some f \<Rightarrow> f)"

definition registerFilterListener ::
  "(target \<Rightarrow> string) \<Rightarrow> MapEventsManager \<Rightarrow> listener \<Rightarrow> filter option \<Rightarrow> bool
     \<Rightarrow> MapEventsManager \<times> bool" where
  "registerFilterListener stringify m listener mapFilter isLite =
     (let flt = filter_or_default mapFilter;
          stringifiedFilter = stringify (Flt flt)
      in case jsmap_get (filterMap m) stringifiedFilter of
           Some g \<Rightarrow> group_addListener stringify m g listener isLite
         | None \<Rightarrow>
             (let g = next_group m;
                  m1 = new_group m (Flt flt);
                  m2 = m1\<lparr>filterMap := jsmap_set (filterMap m1) stringifiedFilter g\<rparr>
              in group_addListener stringify m2 g listener isLite))"

definition removeFilterListener ::
  "(target \<Rightarrow> string) \<Rightarrow> MapEventsManager \<Rightarrow> listener \<Rightarrow> filter option \<Rightarrow> MapEventsManager \<times> bool" where
  "removeFilterListener stringify m listener mapFilter =
     (let flt = filter_or_default mapFilter;
          stringifiedFilter = stringify (Flt flt)
      in case jsmap_get (filterMap m) stringifiedFilter of
           None \<Rightarrow> (m, True)
         | Some g \<Rightarrow> group_removeListener stringify m g listener)"

subsection \<open>Reading the trace\<close>

text \<open>
  Append-then-send, checked along a trace: \<open>pending\<close> holds the uids whose callback is in
  the map at this point; a \<open>Write\<close> is in order when the uid of its request is among them.
\<close>

fun append_then_send :: "string list \<Rightarrow> action list \<Rightarrow> bool" where
  "append_then_send pending [] = True"
| "append_then_send pending (Pending_set u # as) = append_then_send (u # pending) as"
| "append_then_send pending (Pending_delete u # as) = append_then_send (removeAll u pending) as"
| "append_then_send pending (Write request # as) =
     (uid request \<in> set pending \<and> append_then_send pending as)"
| "append_then_send pending (_ # as) = append_then_send pending as"

text \<open>The trace of the second state continues the trace of the first, and what was added
  is in order by itself.\<close>

definition extends_in_order :: "MapEventsManager \<Rightarrow> MapEventsManager \<Rightarrow> bool" where
  "extends_in_order m m' =
     (take (length (trace m)) (trace m') = trace m
      \<and> append_then_send [] (drop (length (trace m)) (trace m')))"

text \<open>What reaches the dispatcher from the application and from the stream.  A run
  takes these one after the other; a call of the application is run as above, with the
  server acknowledging.\<close>

datatype input =
    RegisterKeyListener listener jsvalue bool
  | RemoveKeyListener listener jsvalue
  | RegisterFilterListener listener "filter option" bool
  | RemoveFilterListener listener "filter option"
  | Response response
  | StreamError error
  | StreamEnd
  | StreamCancelled

definition step :: "(target \<Rightarrow> string) \<Rightarrow> MapEventsManager \<Rightarrow> input \<Rightarrow> MapEventsManager" where
  "step stringify m i =
     (case i of
        RegisterKeyListener l k isLite \<Rightarrow> fst (registerKeyListener stringify m l k isLite)
      | RemoveKeyListener l k \<Rightarrow> fst (removeKeyListener stringify m l k)
      | RegisterFilterListener l f isLite \<Rightarrow> fst (registerFilterListener stringify m l f isLite)
      | RemoveFilterListener l f \<Rightarrow> fst (removeFilterListener stringify m l f)
      | Response resp \<Rightarrow> handleResponse stringify m resp
      | StreamError err \<Rightarrow> onError m err
      | StreamEnd \<Rightarrow> onEnd m
      | StreamCancelled \<Rightarrow> onCancel m)"

definition run :: "(target \<Rightarrow> string) \<Rightarrow> MapEventsManager \<Rightarrow> input list \<Rightarrow> MapEventsManager" where
  "run stringify m inputs = foldl (step stringify) m inputs"

text \<open>The groups an event is delivered to, in the order \<open>handleResponse\<close> reaches them:
  one per filter id of the event that is in the index, then the group of the key.\<close>

definition event_groups :: "(target \<Rightarrow> string) \<Rightarrow> MapEventsManager \<Rightarrow> MapEvent \<Rightarrow> nat list" where
  "event_groups stringify m mapEvent =
     concat (map (\<lambda>i. case jsmap_get (filterId2ListenerGroup m) i of Some g \<Rightarrow> [g] | None \<Rightarrow> [])
                 (ev_filterIds mapEvent))
     @ (case jsmap_get (keyMap m) (stringify (Key (ev_key mapEvent))) of
          Some g \<Rightarrow> [g] | None \<Rightarrow> [])"


text \<open>The requests for a listener (not \<open>INIT\<close>) written in a trace, in order.\<close>

definition listener_requests :: "action list \<Rightarrow> request list" where
  "listener_requests as =
     concat (map (\<lambda>a. case a of Write r \<Rightarrow> (if req_target r \<noteq> None then [r] else []) | _ \<Rightarrow> []) as)"

text \<open>The requests for a listener written between two states of a run.\<close>

definition written_since :: "MapEventsManager \<Rightarrow> MapEventsManager \<Rightarrow> request list" where
  "written_since m m' =
     drop (length (listener_requests (trace m))) (listener_requests (trace m'))"

section \<open>Theorems\<close>

subsection \<open>The between filter\<close>

lemma BetweenFilter_unfold:
  "BetweenFilter x from to lo hi =
     BetweenFilterObj ''filter.BetweenFilter''
       [if lo then GreaterEqualsFilter x from else GreaterFilter x from,
        if hi then LessEqualsFilter x to else LessFilter x to] from to"
  by (simp add: BetweenFilter_def AndFilter_def AllFilter_def filterName_def)

text \<open>
  C5, as stated, at its own example: the claim gives the tag of the node as
  \<open>BetweenFilter\<close>; the tag the constructor stores is \<open>filter.BetweenFilter\<close>.
\<close>

theorem C5_between_tag_counterexample:
  "clazz (Filters_between (Method ''age'') (JNumber 18) (JNumber 65) True False)
     \<noteq> ''BetweenFilter''"
  by (simp add: Filters_between_def BetweenFilter_unfold)

text \<open>
  C5, amended: for every extractor-or-method argument, bounds and inclusion flags,
  \<open>between\<close> builds the node of an \<open>AndFilter\<close> retagged \<open>filter.BetweenFilter\<close>, with the
  bounds stored and exactly two children: \<open>GreaterEqualsFilter(x, from)\<close> when the lower
  bound is included and \<open>GreaterFilter(x, from)\<close> otherwise, then \<open>LessEqualsFilter(x, to)\<close>
  when the upper bound is included and \<open>LessFilter(x, to)\<close> otherwise.  At
  \<open>between("age", 18, 65, true, false)\<close> the children are tagged
  \<open>filter.GreaterEqualsFilter\<close> and \<open>filter.LessFilter\<close> and carry the extractor
  \<open>UniversalExtractor("age")\<close>.
\<close>

theorem C5_between_structure:
  "Filters_between x from to lo hi =
     BetweenFilterObj ''filter.BetweenFilter''
       [if lo then GreaterEqualsFilter x from else GreaterFilter x from,
        if hi then LessEqualsFilter x to else LessFilter x to] from to
   \<and> filters_of (Filters_between x from to lo hi) =
       filters_of (AndFilter (if lo then GreaterEqualsFilter x from else GreaterFilter x from)
                             (if hi then LessEqualsFilter x to else LessFilter x to))
   \<and> Filters_between (Method ''age'') (JNumber 18) (JNumber 65) True False =
       BetweenFilterObj ''filter.BetweenFilter''
         [ComparisonFilter ''filter.GreaterEqualsFilter'' (UniversalExtractor ''age'') (JNumber 18),
          ComparisonFilter ''filter.LessFilter'' (UniversalExtractor ''age'') (JNumber 65)]
         (JNumber 18) (JNumber 65)"
proof -
  have general: "Filters_between x from to lo hi =
     BetweenFilterObj ''filter.BetweenFilter''
       [if lo then GreaterEqualsFilter x from else GreaterFilter x from,
        if hi then LessEqualsFilter x to else LessFilter x to] from to"
    by (simp only: Filters_between_def BetweenFilter_unfold)
  have children: "filters_of (Filters_between x from to lo hi) =
       filters_of (AndFilter (if lo then GreaterEqualsFilter x from else GreaterFilter x from)
                             (if hi then LessEqualsFilter x to else LessFilter x to))"
    by (simp add: Filters_between_def BetweenFilter_def)
  have example: "Filters_between (Method ''age'') (JNumber 18) (JNumber 65) True False =
       BetweenFilterObj ''filter.BetweenFilter''
         [ComparisonFilter ''filter.GreaterEqualsFilter'' (UniversalExtractor ''age'') (JNumber 18),
          ComparisonFilter ''filter.LessFilter'' (UniversalExtractor ''age'') (JNumber 65)]
         (JNumber 18) (JNumber 65)"
    by (simp add: Filters_between_def BetweenFilter_unfold GreaterEqualsFilter_def
          LessFilter_def new_ComparisonFilter_def ExtractorFilter_extractor_def
          ComparisonFilter_value_def filterName_def)
  from general children example show ?thesis by blast
qed

subsection \<open>The value callback of \<open>get\<close> and \<open>put\<close>\<close>

text \<open>
  C6, as stated, at an empty payload: the claim has the promise resolved twice there.  The
  callback calls \<open>resolve\<close> once, with \<open>null\<close>, for \<open>get\<close> and for \<open>put\<close>.
\<close>

theorem C6_empty_payload_counterexample:
  "resolve_calls (get_callback (\<lambda>payload. None) None (Some '''')) = [JNull]
   \<and> resolve_calls (put_callback (\<lambda>payload. None) None (Some '''')) = [JNull]
   \<and> length (resolve_calls (get_callback (\<lambda>payload. None) None (Some ''''))) \<noteq> 2
   \<and> length (resolve_calls (put_callback (\<lambda>payload. None) None (Some ''''))) \<noteq> 2"
  by (simp add: get_callback_def put_callback_def)

text \<open>
  C6, amended: for \<open>get\<close> and \<open>put\<close>, when the server responds without error and the value
  payload is empty or absent, \<open>resolve\<close> is called exactly once, with \<open>null\<close>, and the
  promise is fulfilled with \<open>null\<close>; when the payload is not empty and parses to a value,
  the promise is fulfilled with that value.
\<close>

theorem C6_value_callback:
  "get_callback p None (Some '''') = Inr [Resolve JNull]
   \<and> get_callback p None None = Inr [Resolve JNull]
   \<and> put_callback p None (Some '''') = Inr [Resolve JNull]
   \<and> put_callback p None None = Inr [Resolve JNull]
   \<and> promise_of (get_callback p None (Some '''')) = Fulfilled JNull
   \<and> promise_of (put_callback p None (Some '''')) = Fulfilled JNull
   \<and> (payload \<noteq> '''' \<and> p payload = Some v \<longrightarrow>
        promise_of (get_callback p None (Some payload)) = Fulfilled v
        \<and> promise_of (put_callback p None (Some payload)) = Fulfilled v)"
  by (simp add: get_callback_def put_callback_def)

theorem C6_value_callback_witness:
  "''7'' \<noteq> '''' \<and> (\<lambda>s. Some (JString s)) ''7'' = Some (JString ''7'')
   \<and> promise_of (get_callback (\<lambda>s. Some (JString s)) None (Some ''7'')) = Fulfilled (JString ''7'')
   \<and> promise_of (put_callback (\<lambda>s. Some (JString s)) None (Some ''7'')) = Fulfilled (JString ''7'')
   \<and> get_callback (\<lambda>s. Some (JString s)) None (Some '''') = Inr [Resolve JNull]"
  using C6_value_callback [of "\<lambda>s. Some (JString s)" "''7''" "JString ''7''"]
  by simp

text \<open>Where the second call to \<open>resolve\<close> does occur: a payload that is not empty.  The
  promise is already settled by the first call.\<close>

lemma value_callback_nonempty_payload:
  "payload \<noteq> '''' \<Longrightarrow> p payload = Some v \<Longrightarrow>
     get_callback p None (Some payload) = Inr [Resolve v, Resolve JNull]
     \<and> put_callback p None (Some payload) = Inr [Resolve v, Resolve JNull]"
  by (simp add: get_callback_def put_callback_def)

subsection \<open>Session: the registry of caches and close\<close>

lemma jsmap_get_set: "jsmap_get (jsmap_set m k v) k = Some v"
  by (induction m) (auto simp: jsmap_get_def)

lemma jsmap_set_keys:
  "map fst (jsmap_set m k v) = (if k \<in> fst ` set m then map fst m else map fst m @ [k])"
  by (induction m) auto

lemma jsmap_set_values: "set (jsmap_set m k v) \<subseteq> insert (k, v) (set m)"
  by (induction m) auto

lemma jsmap_get_None: "jsmap_get m k = None \<longleftrightarrow> k \<notin> fst ` set m"
  by (simp add: jsmap_get_def map_of_eq_None_iff)

lemma jsmap_delete_head:
  "fst e \<notin> fst ` set m \<Longrightarrow> jsmap_delete (e # m) (fst e) = m"
  by (induction m) (auto simp: jsmap_delete_def)

lemma emit_fields:
  "caches (emit s ev) = caches s"
  "markedForClose (emit s ev) = markedForClose s"
  "log (emit s ev) = log s @ [Emit ev]"
  "closed (emit s ev) = (closed s \<or> (markedForClose s \<and> caches s = []))"
  by (auto simp: emit_def on_lifecycle_event_def jsmap_size_def)

lemma release_fields:
  "caches (NamedCacheClient_release s c) =
     jsmap_delete (caches s) (makeCacheKey (cache_name c) (ser_format (cache_serializer c)))"
  "markedForClose (NamedCacheClient_release s c) = markedForClose s"
  "log (NamedCacheClient_release s c) =
     log s @ [Cache_release (cache_id c),
              Emit (RELEASED (cache_name c) (ser_format (cache_serializer c)))]"
  "closed (NamedCacheClient_release s c) =
     (closed s \<or> (markedForClose s \<and>
        jsmap_delete (caches s) (makeCacheKey (cache_name c) (ser_format (cache_serializer c))) = []))"
  by (auto simp: NamedCacheClient_release_def cache_on_RELEASED_def emit_fields)

text \<open>The loop of \<open>close\<close> empties a registry built by \<open>getCache\<close>, emits no \<open>closed\<close> and
  does not touch the channel.\<close>

lemma release_loop_drains:
  "registry_keys_ok xs \<Longrightarrow> caches s = xs \<Longrightarrow> markedForClose s \<Longrightarrow>
     caches (release_loop s xs) = []
     \<and> markedForClose (release_loop s xs)
     \<and> (xs \<noteq> [] \<longrightarrow> closed (release_loop s xs))
     \<and> (closed s \<longrightarrow> closed (release_loop s xs))
     \<and> filter (\<lambda>a. a = Emit CLOSED) (log (release_loop s xs)) = filter (\<lambda>a. a = Emit CLOSED) (log s)
     \<and> filter (\<lambda>a. a = Channel_close) (log (release_loop s xs)) = filter (\<lambda>a. a = Channel_close) (log s)"
proof (induction xs arbitrary: s)
  case Nil
  then show ?case by simp
next
  case (Cons e es)
  let ?s' = "NamedCacheClient_release s (snd e)"
  from Cons.prems
  have key: "makeCacheKey (cache_name (snd e)) (ser_format (cache_serializer (snd e))) = fst e"
    by (simp add: registry_keys_ok_def)
  from Cons.prems have "distinct (map fst (e # es))"
    unfolding registry_keys_ok_def by blast
  then have fresh: "fst e \<notin> fst ` set es"
    by simp
  from Cons.prems have ok: "registry_keys_ok es"
    by (simp add: registry_keys_ok_def)
  have present: "jsmap_get (caches s) (fst e) = Some (snd e)"
    using Cons.prems(2) by (cases e) (simp add: jsmap_get_def)
  have caches': "caches ?s' = es"
    using Cons.prems(2) key fresh by (simp add: release_fields jsmap_delete_head)
  have marked': "markedForClose ?s'"
    using Cons.prems(3) by (simp add: release_fields)
  have step: "release_loop s (e # es) = release_loop ?s' es"
    using present by simp
  have closed': "es = [] \<or> closed s \<Longrightarrow> closed ?s'"
    using Cons.prems(2,3) key fresh by (auto simp: release_fields jsmap_delete_head)
  from Cons.IH [OF ok caches' marked'] step closed'
  show ?case
    by (cases "es = []") (auto simp: release_fields)
qed

lemma close_first_call:
  assumes "\<not> markedForClose s" and "registry_keys_ok (caches s)"
  shows "markedForClose (close s)"
    and "closed (close s)"
    and "caches (close s) = []"
    and "closed_emissions (close s) = closed_emissions s + 1"
    and "channel_closes (close s) = channel_closes s + 1"
proof -
  let ?s1 = "s\<lparr>markedForClose := True\<rparr>"
  let ?s2 = "release_loop ?s1 (caches ?s1)"
  let ?s3 = "?s2\<lparr>log := log ?s2 @ [Channel_close]\<rparr>"
  have loop: "caches ?s2 = [] \<and> markedForClose ?s2
     \<and> filter (\<lambda>a. a = Emit CLOSED) (log ?s2) = filter (\<lambda>a. a = Emit CLOSED) (log ?s1)
     \<and> filter (\<lambda>a. a = Channel_close) (log ?s2) = filter (\<lambda>a. a = Channel_close) (log ?s1)"
    using release_loop_drains [of "caches ?s1" ?s1] assms(2) by simp
  have unfold: "close s = emit ?s3 CLOSED"
    using assms(1) by (simp add: close_def Let_def)
  show "markedForClose (close s)"
    using loop by (simp add: unfold emit_fields)
  show "closed (close s)"
    using loop by (simp add: unfold emit_fields)
  show "caches (close s) = []"
    using loop by (simp add: unfold emit_fields)
  show "closed_emissions (close s) = closed_emissions s + 1"
    using loop by (simp add: unfold emit_fields closed_emissions_def)
  show "channel_closes (close s) = channel_closes s + 1"
    using loop by (simp add: unfold emit_fields channel_closes_def)
qed

text \<open>The registry invariant holds in a new session and is kept by \<open>getCache\<close> (for a
  registry that answers a format with a serializer of that format) and by the listeners
  of \<open>setupEventHandlers\<close>.\<close>

lemma new_Session_registry:
  "new_Session readFileSync given = Inr s \<Longrightarrow>
     registry_keys_ok (caches s) \<and> \<not> markedForClose s \<and> \<not> closed s"
  by (auto simp: new_Session_def registry_keys_ok_def Let_def split: sum.splits)

lemma getCache_registry:
  assumes "\<And>f ser. registry f = Some ser \<Longrightarrow> ser_format ser = f"
    and "registry_keys_ok (caches s)"
    and "getCache registry s name fmt = Inr (c, s')"
  shows "registry_keys_ok (caches s')"
proof (cases "jsmap_get (caches s) (makeCacheKey name fmt)")
  case (Some existing)
  with assms(2,3) show ?thesis
    by (auto simp: getCache_def Let_def split: if_splits option.splits)
next
  case None
  from assms(3) obtain ser where ser: "registry fmt = Some ser"
    by (auto simp: getCache_def Let_def split: if_splits option.splits)
  let ?c = "\<lparr>cache_id = next_cache_id s, cache_name = name, cache_serializer = ser\<rparr>"
  from assms(3) None ser
  have s': "caches s' = jsmap_set (caches s) (makeCacheKey name fmt) ?c"
    by (auto simp: getCache_def Let_def split: if_splits)
  from None have fresh: "makeCacheKey name fmt \<notin> fst ` set (caches s)"
    by (simp add: jsmap_get_None)
  have "distinct (map fst (caches s'))"
    using assms(2) fresh by (simp add: s' jsmap_set_keys registry_keys_ok_def)
  moreover have "\<forall>e \<in> set (caches s').
      fst e = makeCacheKey (cache_name (snd e)) (ser_format (cache_serializer (snd e)))"
  proof
    fix e assume "e \<in> set (caches s')"
    then have "e = (makeCacheKey name fmt, ?c) \<or> e \<in> set (caches s)"
      using jsmap_set_values [of "caches s" "makeCacheKey name fmt" ?c] by (auto simp: s')
    then show "fst e = makeCacheKey (cache_name (snd e)) (ser_format (cache_serializer (snd e)))"
      using assms(1) [OF ser] assms(2) by (auto simp: registry_keys_ok_def list_all_iff)
  qed
  ultimately show ?thesis
    by (simp add: registry_keys_ok_def list_all_iff)
qed

lemma registry_keys_ok_filter: "registry_keys_ok m \<Longrightarrow> registry_keys_ok (filter P m)"
  by (auto simp: registry_keys_ok_def list_all_iff distinct_map_filter)

lemma cache_on_RELEASED_registry:
  "registry_keys_ok (caches s) \<Longrightarrow> registry_keys_ok (caches (cache_on_RELEASED s n f))"
  by (simp add: cache_on_RELEASED_def emit_fields jsmap_delete_def registry_keys_ok_filter)

text \<open>\<open>getCache\<close> returns on an open session for a format the registry knows.\<close>

lemma getCache_returns:
  "\<not> markedForClose s \<Longrightarrow> \<not> closed s \<Longrightarrow> registry fmt = Some ser \<Longrightarrow>
     \<exists>c s'. getCache registry s name fmt = Inr (c, s')"
  by (simp add: getCache_def Let_def split: option.splits)


text \<open>
  C4: on a session on which \<open>close\<close> has not been called yet (its registry as \<open>getCache\<close>
  builds it), two calls of \<open>close\<close> emit \<open>closed\<close> exactly once in total, the flag \<open>closed\<close>
  is true after the first call and after the second, and the second call changes
  nothing: it releases no cache, closes no channel, emits nothing.
\<close>

theorem C4_close_idempotent:
  assumes "\<not> markedForClose s" and "registry_keys_ok (caches s)"
  shows "closed_emissions (close (close s)) = closed_emissions s + 1
         \<and> closed (close s)
         \<and> closed (close (close s))
         \<and> close (close s) = close s
         \<and> log (close (close s)) = log (close s)
         \<and> channel_closes (close (close s)) = channel_closes s + 1"
proof -
  have second: "close (close s) = close s"
    using close_first_call(1) [OF assms] by (simp add: close_def [of "close s"])
  show ?thesis
    using close_first_call [OF assms] by (simp add: second)
qed

text \<open>A session with the caches \<open>orders\<close> and \<open>prices\<close> open, closed twice.\<close>

theorem C4_close_idempotent_witness:
  "\<exists>s0 c1 s1 c2 s.
     new_Session (\<lambda>path. None) None = Inr s0
     \<and> getCache (\<lambda>f. Some (Serializer f)) s0 ''orders'' ''json'' = Inr (c1, s1)
     \<and> getCache (\<lambda>f. Some (Serializer f)) s1 ''prices'' ''json'' = Inr (c2, s)
     \<and> \<not> markedForClose s \<and> registry_keys_ok (caches s)
     \<and> length (caches s) = 2
     \<and> closed_emissions s = 0
     \<and> closed_emissions (close (close s)) = 1
     \<and> closed (close (close s))
     \<and> close (close s) = close s"
proof -
  let ?reg = "\<lambda>f. Some (Serializer f)"
  obtain s0 where s0: "new_Session (\<lambda>path. None) None = Inr s0"
    by (simp add: new_Session_def createCredentials_def DEFAULT_OPTIONS_def new_Options_def
          new_TlsOptions_def)
  then have s0_fields: "caches s0 = []" "\<not> markedForClose s0" "\<not> closed s0" "log s0 = []"
    by (auto simp: new_Session_def createCredentials_def DEFAULT_OPTIONS_def new_Options_def
          new_TlsOptions_def)
  have "\<exists>c s'. getCache ?reg s0 ''orders'' ''json'' = Inr (c, s')"
    by (rule getCache_returns [OF s0_fields(2,3)]) simp
  then obtain c1 s1 where g1: "getCache ?reg s0 ''orders'' ''json'' = Inr (c1, s1)"
    by blast
  then have s1_fields: "caches s1 = [(makeCacheKey ''orders'' ''json'', c1)]"
      "\<not> markedForClose s1" "\<not> closed s1" "log s1 = []"
    using s0_fields by (auto simp: getCache_def jsmap_get_def Let_def)
  have "\<exists>c s'. getCache ?reg s1 ''prices'' ''json'' = Inr (c, s')"
    by (rule getCache_returns [OF s1_fields(2,3)]) simp
  then obtain c2 s where g2: "getCache ?reg s1 ''prices'' ''json'' = Inr (c2, s)"
    by blast
  then have s_fields: "length (caches s) = 2" "\<not> markedForClose s" "log s = []"
    using s1_fields by (auto simp: getCache_def jsmap_get_def makeCacheKey_def Let_def)
  have ok0: "registry_keys_ok (caches s0)"
    using new_Session_registry [OF s0] by simp
  have ok1: "registry_keys_ok (caches s1)"
    using getCache_registry [OF _ ok0 g1] by simp
  have ok: "registry_keys_ok (caches s)"
    using getCache_registry [OF _ ok1 g2] by simp
  have "closed_emissions s = 0"
    using s_fields by (simp add: closed_emissions_def)
  with C4_close_idempotent [OF s_fields(2) ok] s0 g1 g2 s_fields ok
  show ?thesis by auto
qed

text \<open>
  C8: the constructor of \<open>Session\<close> never calls \<open>lock\<close>.  A session built from a fresh
  \<open>Options\<close> holds it unlocked, and an assignment to \<open>address\<close> afterwards goes through
  and changes the address the session reports.
\<close>

theorem C8_options_not_locked_by_constructor:
  "\<exists>s s'.
     new_Session (\<lambda>path. None) (Some new_Options) = Inr s
     \<and> \<not> locked (options s)
     \<and> \<not> tls_locked (tls (options s))
     \<and> Session_address s = ''localhost:1408''
     \<and> assign_options_address s ''example.com:9999'' = Inr s'
     \<and> Session_address s' = ''example.com:9999''
     \<and> set_requestTimeoutInMillis (options s) 5 \<noteq> options s
     \<and> set_enabled (tls (options s)) True \<noteq> tls (options s)"
proof -
  have test: "ADDRESS_REGEXP_test ''example.com:9999''"
    by (simp add: ADDRESS_REGEXP_test_def is_digit_def is_whitespace_def)
  obtain s where s: "new_Session (\<lambda>path. None) (Some new_Options) = Inr s"
    by (simp add: new_Session_def createCredentials_def new_Options_def new_TlsOptions_def)
  then have opts: "sessionOptions s = new_Options"
    by (auto simp: new_Session_def createCredentials_def new_Options_def new_TlsOptions_def)
  have unlocked: "\<not> locked (options s)" "\<not> tls_locked (tls (options s))"
    by (simp_all add: options_def opts new_Options_def new_TlsOptions_def)
  have before: "Session_address s = ''localhost:1408''"
    by (simp add: Session_address_def opts new_Options_def DEFAULT_ADDRESS_def)
  have assign: "assign_options_address s ''example.com:9999''
      = Inr (s\<lparr>sessionOptions := (options s)\<lparr>address := ''example.com:9999''\<rparr>\<rparr>)"
    using unlocked test by (simp add: assign_options_address_def set_address_def)
  have after: "Session_address (s\<lparr>sessionOptions := (options s)\<lparr>address := ''example.com:9999''\<rparr>\<rparr>)
      = ''example.com:9999''"
    by (simp add: Session_address_def)
  have timeout: "set_requestTimeoutInMillis (options s) 5 \<noteq> options s"
  proof
    assume "set_requestTimeoutInMillis (options s) 5 = options s"
    then have "requestTimeoutInMillis (set_requestTimeoutInMillis (options s) 5)
        = requestTimeoutInMillis (options s)" by simp
    then show False
      by (simp add: set_requestTimeoutInMillis_def options_def opts new_Options_def
            DEFAULT_REQUEST_TIMEOUT_def)
  qed
  have tls: "set_enabled (tls (options s)) True \<noteq> tls (options s)"
  proof
    assume "set_enabled (tls (options s)) True = tls (options s)"
    then have "enabled (set_enabled (tls (options s)) True) = enabled (tls (options s))" by simp
    then show False
      by (simp add: set_enabled_def options_def opts new_Options_def new_TlsOptions_def)
  qed
  from s unlocked before assign after timeout tls show ?thesis by blast
qed

text \<open>What the constructor leaves in place for any options it is given.\<close>

lemma new_Session_keeps_options:
  "new_Session readFileSync (Some given) = Inr s \<Longrightarrow> options s = given"
  by (auto simp: new_Session_def options_def Let_def split: sum.splits)

text \<open>What \<open>lock\<close> would have achieved: every setter leaves a locked object as it is.\<close>

lemma locked_setters_ignore:
  "set_address (Options_lock opts) a = Inr (Options_lock opts)"
  "set_requestTimeoutInMillis (Options_lock opts) t = Options_lock opts"
  "set_callOptions (Options_lock opts) f = Options_lock opts"
  "set_enabled (tls (Options_lock opts)) b = tls (Options_lock opts)"
  "set_caCertPath (tls (Options_lock opts)) p = tls (Options_lock opts)"
  "set_clientCertPath (tls (Options_lock opts)) p = tls (Options_lock opts)"
  "set_clientKeyPath (tls (Options_lock opts)) p = tls (Options_lock opts)"
  by (simp_all add: set_address_def set_requestTimeoutInMillis_def set_callOptions_def
        set_enabled_def set_caCertPath_def set_clientCertPath_def set_clientKeyPath_def
        Options_lock_def TlsOptions_lock_def)




subsection \<open>Dispatcher: stream errors\<close>

lemma string_of_nat_small:
  "string_of_nat 0 = ''0''"
  "string_of_nat (Suc 0) = ''1''"
  "string_of_nat 1 = ''1''"
  "string_of_nat 2 = ''2''"
  "string_of_nat 3 = ''3''"
  "string_of_nat 4 = ''4''"
  "string_of_nat 5 = ''5''"
  "string_of_nat 6 = ''6''"
  by code_simp+

text \<open>
  C3: what \<open>onError\<close> does when close was not requested.  With a callback pending for a
  request just written, the error is emitted on the cache, and that is all: the callback
  stays in \<open>pendingSubscriptions\<close> and is not called, the promise of the request is not
  settled.  The indices of listeners are left as they are.
\<close>

theorem C3_onError_leaves_pending:
  "onError (m\<lparr>markedForClose_events := False\<rparr>) err
     = (m\<lparr>markedForClose_events := False\<rparr>)
         \<lparr>trace := trace m @ [Emitted (Emit_error (cacheName m) err)]\<rparr>
   \<and> pendingSubscriptions (onError (m\<lparr>markedForClose_events := False\<rparr>) err)
       = pendingSubscriptions m
   \<and> jsmap_get
        (pendingSubscriptions
          (onError (writeRequest_then (new_MapEventsManager ''orders'')
                      (mapListenerRequest 1 True (Key (JString ''k'')) False)) ''UNAVAILABLE''))
        ''1''
       = Some (RequestCallback (mapListenerRequest 1 True (Key (JString ''k'')) False))
   \<and> trace (onError (writeRequest_then (new_MapEventsManager ''orders'')
                      (mapListenerRequest 1 True (Key (JString ''k'')) False)) ''UNAVAILABLE'')
       = [Pending_set ''1'',
          Write (mapListenerRequest 1 True (Key (JString ''k'')) False),
          Emitted (Emit_error ''orders'' ''UNAVAILABLE'')]"
  by (simp add: onError_def record_action_def writeRequest_then_def pending_set_def
        new_MapEventsManager_def mapListenerRequest_def jsmap_get_def string_of_nat_small)

lemma onError_keeps_listeners:
  "keyMap (onError m err) = keyMap m
   \<and> filterMap (onError m err) = filterMap m
   \<and> filterId2ListenerGroup (onError m err) = filterId2ListenerGroup m
   \<and> groups (onError m err) = groups m"
  by (simp add: onError_def record_action_def)

subsection \<open>Dispatcher: delivery of an event\<close>

lemma notify_filter_groups_eq:
  "notify_filter_groups m ids mapEvent =
     m\<lparr>trace := trace m @
         concat (map (\<lambda>g. notifyListeners (groups m g) mapEvent)
           (concat (map (\<lambda>i. case jsmap_get (filterId2ListenerGroup m) i of
                                Some g \<Rightarrow> [g] | None \<Rightarrow> []) ids)))\<rparr>"
proof (induction ids arbitrary: m)
  case Nil
  then show ?case by simp
next
  case (Cons i ids)
  show ?case
    by (cases "jsmap_get (filterId2ListenerGroup m) i") (simp_all add: Cons.IH)
qed

lemma handleResponse_event:
  "handleResponse stringify m (Resp_EVENT (Some mapEvent)) =
     m\<lparr>trace := trace m @
         concat (map (\<lambda>g. notifyListeners (groups m g) mapEvent)
                     (event_groups stringify m mapEvent))\<rparr>"
  by (cases "jsmap_get (keyMap m) (stringify (Key (ev_key mapEvent)))")
     (simp_all add: handleResponse_def notify_filter_groups_eq event_groups_def Let_def)









subsection \<open>Dispatcher: the callback is stored before the request is written\<close>

lemma append_then_send_mono:
  "set P \<subseteq> set Q \<Longrightarrow> append_then_send P as \<Longrightarrow> append_then_send Q as"
proof (induction as arbitrary: P Q)
  case Nil
  then show ?case by simp
next
  case (Cons a as)
  show ?case
  proof (cases a)
    case (Pending_set u)
    with Cons.prems Cons.IH [of "u # P" "u # Q"] show ?thesis by auto
  next
    case (Pending_delete u)
    with Cons.prems Cons.IH [of "removeAll u P" "removeAll u Q"] show ?thesis by auto
  next
    case (Write r)
    with Cons.prems Cons.IH [of P Q] show ?thesis by auto
  qed (use Cons.prems Cons.IH [of P Q] in auto)
qed

lemma append_then_send_append:
  "append_then_send P as \<Longrightarrow> append_then_send [] bs \<Longrightarrow> append_then_send P (as @ bs)"
proof (induction as arbitrary: P)
  case Nil
  then show ?case using append_then_send_mono [of "[]" P bs] by simp
next
  case (Cons a as)
  then show ?case by (cases a) auto
qed

lemma append_then_send_invokes:
  "append_then_send P (map (\<lambda>l. Invoke l meth mapEvent) ls)"
  by (induction ls) simp_all

lemma append_then_send_notify: "append_then_send P (notifyListeners g mapEvent)"
  by (simp add: notifyListeners_def append_then_send_invokes)

lemma append_then_send_notify_all:
  "append_then_send [] (concat (map (\<lambda>g. notifyListeners (G g) mapEvent) gs))"
proof (induction gs)
  case Nil
  then show ?case by simp
next
  case (Cons g gs)
  then show ?case
    by (simp add: append_then_send_append append_then_send_notify)
qed

lemma extends_in_orderI:
  "trace m' = trace m @ bs \<Longrightarrow> append_then_send [] bs \<Longrightarrow> extends_in_order m m'"
  by (simp add: extends_in_order_def)

lemma extends_in_order_same: "trace m' = trace m \<Longrightarrow> extends_in_order m m'"
  by (simp add: extends_in_order_def)

lemma extends_in_orderD:
  "extends_in_order m m' \<Longrightarrow> \<exists>bs. trace m' = trace m @ bs \<and> append_then_send [] bs"
proof -
  assume ext: "extends_in_order m m'"
  then have "trace m' = trace m @ drop (length (trace m)) (trace m')"
    by (metis append_take_drop_id extends_in_order_def)
  with ext show ?thesis
    unfolding extends_in_order_def by blast
qed

lemma extends_in_order_trans:
  assumes "extends_in_order m m'" and "extends_in_order m' m''"
  shows "extends_in_order m m''"
proof -
  from extends_in_orderD [OF assms(1)] obtain bs
    where bs: "trace m' = trace m @ bs" "append_then_send [] bs" by blast
  from extends_in_orderD [OF assms(2)] obtain cs
    where cs: "trace m'' = trace m' @ cs" "append_then_send [] cs" by blast
  have "trace m'' = trace m @ (bs @ cs)"
    using bs(1) cs(1) by simp
  moreover have "append_then_send [] (bs @ cs)"
    using bs(2) cs(2) by (rule append_then_send_append)
  ultimately show ?thesis
    by (rule extends_in_orderI)
qed

lemma record_action_fields:
  "trace (record_action m a) = trace m @ [a]"
  "pendingSubscriptions (record_action m a) = pendingSubscriptions m"
  "streamPromise (record_action m a) = streamPromise m"
  "keyMap (record_action m a) = keyMap m"
  "filterMap (record_action m a) = filterMap m"
  "filterId2ListenerGroup (record_action m a) = filterId2ListenerGroup m"
  "groups (record_action m a) = groups m"
  "next_group (record_action m a) = next_group m"
  "requests (record_action m a) = requests m"
  "next_promise (record_action m a) = next_promise m"
  "markedForClose_events (record_action m a) = markedForClose_events m"
  "cacheName (record_action m a) = cacheName m"
  by (simp_all add: record_action_def)

lemma pending_set_fields:
  "trace (pending_set m u cb) = trace m @ [Pending_set u]"
  "pendingSubscriptions (pending_set m u cb) = jsmap_set (pendingSubscriptions m) u cb"
  "streamPromise (pending_set m u cb) = streamPromise m"
  "keyMap (pending_set m u cb) = keyMap m"
  "filterMap (pending_set m u cb) = filterMap m"
  "filterId2ListenerGroup (pending_set m u cb) = filterId2ListenerGroup m"
  "groups (pending_set m u cb) = groups m"
  "next_group (pending_set m u cb) = next_group m"
  "requests (pending_set m u cb) = requests m"
  "next_promise (pending_set m u cb) = next_promise m"
  "markedForClose_events (pending_set m u cb) = markedForClose_events m"
  by (simp_all add: pending_set_def record_action_def)

lemma pending_delete_fields:
  "trace (pending_delete m u) = trace m @ [Pending_delete u]"
  "pendingSubscriptions (pending_delete m u) = jsmap_delete (pendingSubscriptions m) u"
  "streamPromise (pending_delete m u) = streamPromise m"
  "keyMap (pending_delete m u) = keyMap m"
  "filterMap (pending_delete m u) = filterMap m"
  "filterId2ListenerGroup (pending_delete m u) = filterId2ListenerGroup m"
  "groups (pending_delete m u) = groups m"
  "next_group (pending_delete m u) = next_group m"
  "requests (pending_delete m u) = requests m"
  "next_promise (pending_delete m u) = next_promise m"
  "markedForClose_events (pending_delete m u) = markedForClose_events m"
  by (simp_all add: pending_delete_def record_action_def)

lemma ensureStream_trace:
  "streamPromise m = None \<Longrightarrow>
     trace (ensureStream m) =
       trace m @ [Open_stream, Pending_set (uid (mapEventSubscribe (requests m))),
                  Write (mapEventSubscribe (requests m))]"
  by (simp add: ensureStream_def Let_def record_action_fields pending_set_fields)

lemma ensureStream_pending:
  "streamPromise m = None \<Longrightarrow>
     jsmap_get (pendingSubscriptions (ensureStream m)) (uid (mapEventSubscribe (requests m)))
       = Some (InitCallback (next_promise m))"
  by (simp add: ensureStream_def Let_def record_action_fields pending_set_fields jsmap_get_set)

lemma writeRequest_then_trace:
  "trace (writeRequest_then m request) = trace m @ [Pending_set (uid request), Write request]"
  by (simp add: writeRequest_then_def Let_def record_action_fields pending_set_fields)

lemma writeRequest_then_pending:
  "jsmap_get (pendingSubscriptions (writeRequest_then m request)) (uid request)
     = Some (RequestCallback request)"
  by (simp add: writeRequest_then_def Let_def record_action_fields pending_set_fields jsmap_get_set)

lemma ensureStream_in_order: "extends_in_order m (ensureStream m)"
proof (cases "streamPromise m")
  case None
  show ?thesis
    by (rule extends_in_orderI [OF ensureStream_trace [OF None]]) simp
next
  case (Some promise)
  then have "ensureStream m = m"
    by (simp add: ensureStream_def)
  then show ?thesis
    by (simp add: extends_in_order_same)
qed

lemma writeRequest_then_in_order: "extends_in_order m (writeRequest_then m request)"
  by (rule extends_in_orderI [OF writeRequest_then_trace]) simp

lemma call_callback_in_order: "extends_in_order m (call_callback m cb u err)"
proof (cases cb)
  case (InitCallback p)
  have "trace (call_callback m cb u err) = trace m @ [Pending_delete u]"
    by (simp add: call_callback_def Let_def InitCallback pending_delete_fields)
  then show ?thesis
    by (rule extends_in_orderI) simp
next
  case (RequestCallback request)
  have "trace (call_callback m cb u err) = trace m @ [Pending_delete u, Settled (uid request) err]"
    by (simp add: call_callback_def Let_def RequestCallback pending_delete_fields
          record_action_fields)
  then show ?thesis
    by (rule extends_in_orderI) simp
qed

lemma acknowledge_in_order:
  "extends_in_order m
     (let callback = jsmap_get (pendingSubscriptions m) u;
          m1 = pending_delete m u
      in case callback of Some cb \<Rightarrow> call_callback m1 cb u None | None \<Rightarrow> m1)"
proof -
  have first: "extends_in_order m (pending_delete m u)"
    by (rule extends_in_orderI [of _ _ "[Pending_delete u]"]) (simp_all add: pending_delete_fields)
  show ?thesis
  proof (cases "jsmap_get (pendingSubscriptions m) u")
    case None
    with first show ?thesis by simp
  next
    case (Some cb)
    with extends_in_order_trans [OF first call_callback_in_order [of "pending_delete m u" cb u None]]
    show ?thesis by simp
  qed
qed

lemma handleResponse_in_order: "extends_in_order m (handleResponse stringify m resp)"
proof (cases resp)
  case (Resp_SUBSCRIBED u)
  then show ?thesis
    using acknowledge_in_order [of m u]
    by (simp add: handleResponse_def extends_in_order_same)
next
  case (Resp_UNSUBSCRIBED u)
  then show ?thesis
    using acknowledge_in_order [of m u]
    by (simp add: handleResponse_def extends_in_order_same)
next
  case Resp_DESTROYED
  then show ?thesis
    by (auto simp: handleResponse_def record_action_fields intro!: extends_in_orderI)
next
  case Resp_TRUNCATED
  then show ?thesis
    by (auto simp: handleResponse_def record_action_fields intro!: extends_in_orderI)
next
  case (Resp_EVENT mapEvent)
  show ?thesis
  proof (cases mapEvent)
    case None
    with Resp_EVENT show ?thesis
      by (simp add: handleResponse_def extends_in_order_same)
  next
    case (Some ev)
    have "trace (handleResponse stringify m (Resp_EVENT (Some ev)))
        = trace m @ concat (map (\<lambda>g. notifyListeners (groups m g) ev) (event_groups stringify m ev))"
      by (simp add: handleResponse_event)
    then have "extends_in_order m (handleResponse stringify m (Resp_EVENT (Some ev)))"
      by (rule extends_in_orderI) (rule append_then_send_notify_all)
    with Resp_EVENT Some show ?thesis by simp
  qed
next
  case Resp_NOT_SET
  then show ?thesis
    by (simp add: handleResponse_def extends_in_order_same)
qed

lemma stream_events_in_order:
  "extends_in_order m (onError m err)"
  "extends_in_order m (onEnd m)"
  "extends_in_order m (onCancel m)"
  by (auto simp: onError_def onEnd_def onCancel_def record_action_fields intro!: extends_in_orderI)

lemma close_in_order: "extends_in_order m (fst (MapEventsManager_close m))"
  by (auto simp: MapEventsManager_close_def record_action_fields extends_in_order_same
        intro!: extends_in_orderI split: option.splits stream_promise.splits)

lemma checkAndCloseEventStream_in_order: "extends_in_order m (checkAndCloseEventStream m)"
  by (simp add: checkAndCloseEventStream_def close_in_order extends_in_order_same)

lemma checkAndCloseEventStream_after:
  "trace m' = trace m \<Longrightarrow> extends_in_order m (checkAndCloseEventStream m')"
  using extends_in_order_trans [OF extends_in_order_same checkAndCloseEventStream_in_order] .

lemma postSubscribe_in_order: "extends_in_order m (postSubscribe m g request)"
  by (simp add: postSubscribe_def filterGroupSubscribed_def extends_in_order_same
        split: target.splits)

lemma postUnsubscribe_in_order: "extends_in_order m (postUnsubscribe stringify m g request)"
  by (auto simp: postUnsubscribe_def keyGroupUnsubscribed_def filterGroupUnsubscribed_def
        extends_in_order_same
        intro!: checkAndCloseEventStream_after split: target.splits option.splits)

lemma writeRequest_acknowledged_in_order:
  "extends_in_order m (fst (writeRequest_acknowledged stringify m request))"
proof -
  let ?m1 = "ensureStream m"
  let ?m2 = "if streamPromise m = None
             then handleResponse stringify ?m1 (Resp_SUBSCRIBED (uid (mapEventSubscribe (requests m))))
             else ?m1"
  let ?m3 = "writeRequest_then ?m2 request"
  let ?ack = "if subscribe request then Resp_SUBSCRIBED (uid request)
              else Resp_UNSUBSCRIBED (uid request)"
  have m2: "extends_in_order m ?m2"
    using extends_in_order_trans [OF ensureStream_in_order handleResponse_in_order]
      ensureStream_in_order by simp
  have m4: "extends_in_order m (handleResponse stringify ?m3 ?ack)"
    by (rule extends_in_order_trans [OF m2
          extends_in_order_trans [OF writeRequest_then_in_order handleResponse_in_order]])
  show ?thesis
  proof (cases "\<exists>p. streamPromise ?m2 = Some (p, StreamResolved)")
    case True
    then obtain p where "streamPromise ?m2 = Some (p, StreamResolved)" by blast
    then have "fst (writeRequest_acknowledged stringify m request) = handleResponse stringify ?m3 ?ack"
      by (simp add: writeRequest_acknowledged_def Let_def)
    with m4 show ?thesis by simp
  next
    case False
    then have "fst (writeRequest_acknowledged stringify m request) = ?m2"
      by (auto simp: writeRequest_acknowledged_def Let_def
            split: option.splits stream_promise.splits)
    with m2 show ?thesis by simp
  qed
qed

lemma doSubscribe_in_order: "extends_in_order m (fst (doSubscribe stringify m g isLite))"
proof -
  let ?r = "mapListenerRequest (requests m) True (keyOrFilter (groups m g)) isLite"
  let ?m1 = "m\<lparr>requests := requests m + 1\<rparr>"
  have w: "extends_in_order m (fst (writeRequest_acknowledged stringify ?m1 ?r))"
    by (rule extends_in_order_trans [OF _ writeRequest_acknowledged_in_order])
       (simp add: extends_in_order_same)
  obtain m2 fin where eq: "writeRequest_acknowledged stringify ?m1 ?r = (m2, fin)"
    by (cases "writeRequest_acknowledged stringify ?m1 ?r")
  with w have w': "extends_in_order m m2" by simp
  show ?thesis
    using w' extends_in_order_trans [OF w' postSubscribe_in_order] eq
    by (simp add: doSubscribe_def Let_def)
qed

lemma doUnsubscribe_in_order:
  "extends_in_order m (fst (doUnsubscribe stringify m g closeStreamIfPossible))"
proof -
  let ?r = "mapListenerRequest (requests m) False (keyOrFilter (groups m g)) False"
  let ?m1 = "m\<lparr>requests := requests m + 1\<rparr>"
  obtain m2 fin where eq: "writeRequest_acknowledged stringify ?m1 ?r = (m2, fin)"
    by (cases "writeRequest_acknowledged stringify ?m1 ?r")
  have "extends_in_order m (fst (writeRequest_acknowledged stringify ?m1 ?r))"
    by (rule extends_in_order_trans [OF _ writeRequest_acknowledged_in_order])
       (simp add: extends_in_order_same)
  with eq have w: "extends_in_order m m2" by simp
  have p: "extends_in_order m (postUnsubscribe stringify m2 g ?r)"
    by (rule extends_in_order_trans [OF w postUnsubscribe_in_order])
  have c: "extends_in_order m (checkAndCloseEventStream (postUnsubscribe stringify m2 g ?r))"
    by (rule extends_in_order_trans [OF p checkAndCloseEventStream_in_order])
  show ?thesis
    using w p c eq by (simp add: doUnsubscribe_def Let_def)
qed

lemma group_calls_in_order: "extends_in_order m (fst (group_calls stringify m g calls))"
proof (induction calls arbitrary: m)
  case Nil
  then show ?case by (simp add: extends_in_order_same)
next
  case (Cons c calls)
  let ?call = "case c of
               DoUnsubscribe b \<Rightarrow> doUnsubscribe stringify m g b
             | DoSubscribe isLite \<Rightarrow> doSubscribe stringify m g isLite"
  obtain m1 fin where eq: "?call = (m1, fin)"
    by (cases ?call)
  have "extends_in_order m (fst ?call)"
    by (cases c) (simp_all add: doUnsubscribe_in_order doSubscribe_in_order)
  with eq have one: "extends_in_order m m1" by simp
  have rest: "extends_in_order m (fst (group_calls stringify m1 g calls))"
    by (rule extends_in_order_trans [OF one Cons.IH])
  show ?case
    using one rest eq by (simp add: Let_def)
qed

lemma group_calls_after:
  "trace m' = trace m \<Longrightarrow> extends_in_order m (fst (group_calls stringify m' g calls))"
  using extends_in_order_trans [OF extends_in_order_same group_calls_in_order] .

lemma group_addListener_in_order:
  "extends_in_order m (fst (group_addListener stringify m g listener isLite))"
  by (simp add: group_addListener_def group_calls_after split: prod.splits)

lemma group_addListener_after:
  "trace m' = trace m \<Longrightarrow> extends_in_order m (fst (group_addListener stringify m' g listener isLite))"
  using extends_in_order_trans [OF extends_in_order_same group_addListener_in_order] .

lemma group_removeListener_in_order:
  "extends_in_order m (fst (group_removeListener stringify m g listener))"
  by (simp add: group_removeListener_def group_calls_after split: prod.splits)

lemma register_remove_in_order:
  "extends_in_order m (fst (registerKeyListener stringify m l k isLite))"
  "extends_in_order m (fst (removeKeyListener stringify m l k))"
  "extends_in_order m (fst (registerFilterListener stringify m l f isLite))"
  "extends_in_order m (fst (removeFilterListener stringify m l f))"
  by (simp_all add: registerKeyListener_def removeKeyListener_def registerFilterListener_def
        removeFilterListener_def Let_def new_group_def group_addListener_in_order
        group_addListener_after group_removeListener_in_order extends_in_order_same
        split: option.splits)

lemma step_in_order: "extends_in_order m (step stringify m i)"
  by (cases i)
     (simp_all add: step_def register_remove_in_order handleResponse_in_order
        stream_events_in_order)

lemma run_in_order: "extends_in_order m (run stringify m inputs)"
proof (induction inputs arbitrary: m)
  case Nil
  then show ?case by (simp add: run_def extends_in_order_same)
next
  case (Cons i inputs)
  have "extends_in_order m (run stringify (step stringify m i) inputs)"
    by (rule extends_in_order_trans [OF step_in_order Cons.IH])
  then show ?case by (simp add: run_def)
qed

text \<open>
  C7: when \<open>ensureStream\<close> opens the stream it stores the callback under the uid of the
  \<open>INIT\<close> request and then writes that request; the function \<open>writeRequest\<close> runs on the
  stream stores the callback under the uid of its request and then writes it; in both the
  callback is in the map when the write happens.  These are the only writes, so in every
  run from a new dispatcher, whatever the application and the stream send it, each
  request written has its uid in \<open>pendingSubscriptions\<close> at the moment it is written.
\<close>

theorem C7_callback_stored_before_write:
  "(streamPromise m = None \<longrightarrow>
      trace (ensureStream m) =
        trace m @ [Open_stream, Pending_set (uid (mapEventSubscribe (requests m))),
                   Write (mapEventSubscribe (requests m))]
      \<and> jsmap_get (pendingSubscriptions (ensureStream m)) (uid (mapEventSubscribe (requests m)))
          = Some (InitCallback (next_promise m)))
   \<and> trace (writeRequest_then m request) = trace m @ [Pending_set (uid request), Write request]
   \<and> jsmap_get (pendingSubscriptions (writeRequest_then m request)) (uid request)
       = Some (RequestCallback request)
   \<and> append_then_send [] (trace (run stringify (new_MapEventsManager name) inputs))"
proof -
  have "extends_in_order (new_MapEventsManager name) (run stringify (new_MapEventsManager name) inputs)"
    by (rule run_in_order)
  then have "append_then_send [] (trace (run stringify (new_MapEventsManager name) inputs))"
    by (simp add: extends_in_order_def new_MapEventsManager_def)
  then show ?thesis
    by (simp add: ensureStream_trace ensureStream_pending writeRequest_then_trace
          writeRequest_then_pending)
qed

text \<open>A key listener registered on a new dispatcher: the stream is opened, and each of the
  two requests is written right after its callback is stored.\<close>

theorem C7_callback_stored_before_write_witness:
  "streamPromise (new_MapEventsManager ''orders'') = None
   \<and> trace (ensureStream (new_MapEventsManager ''orders''))
       = [Open_stream, Pending_set ''0'', Write (Request ''0'' True None False 0)]
   \<and> jsmap_get (pendingSubscriptions (ensureStream (new_MapEventsManager ''orders''))) ''0''
       = Some (InitCallback 0)
   \<and> append_then_send []
        (trace (run (\<lambda>t. ''k'') (new_MapEventsManager ''orders'')
                  [RegisterKeyListener 7 (JString ''k'') True]))
   \<and> trace (run (\<lambda>t. ''k'') (new_MapEventsManager ''orders'')
                  [RegisterKeyListener 7 (JString ''k'') True])
       = [Open_stream, Pending_set ''1'', Write (Request ''1'' True None False 0),
          Pending_delete ''1'', Pending_delete ''1'',
          Pending_set ''0'', Write (Request ''0'' True (Some (Key (JString ''k''))) True 0),
          Pending_delete ''0'', Pending_delete ''0'', Settled ''0'' None]"
proof -
  have none: "streamPromise (new_MapEventsManager ''orders'') = None"
    by (simp add: new_MapEventsManager_def)
  have requests: "requests (new_MapEventsManager ''orders'') = 0"
      "next_promise (new_MapEventsManager ''orders'') = 0"
      "trace (new_MapEventsManager ''orders'') = []"
    by (simp_all add: new_MapEventsManager_def)
  have init: "mapEventSubscribe 0 = Request ''0'' True None False 0"
    by (simp add: mapEventSubscribe_def string_of_nat_small)
  have run: "trace (run (\<lambda>t. ''k'') (new_MapEventsManager ''orders'')
                  [RegisterKeyListener 7 (JString ''k'') True])
       = [Open_stream, Pending_set ''1'', Write (Request ''1'' True None False 0),
          Pending_delete ''1'', Pending_delete ''1'',
          Pending_set ''0'', Write (Request ''0'' True (Some (Key (JString ''k''))) True 0),
          Pending_delete ''0'', Pending_delete ''0'', Settled ''0'' None]"
    by code_simp
  from C7_callback_stored_before_write
         [of "new_MapEventsManager ''orders''" "mapEventSubscribe 0" "\<lambda>t. ''k''" "''orders''"
             "[RegisterKeyListener 7 (JString ''k'') True]"]
       none
  show ?thesis
    by (simp add: requests init run)
qed

subsection \<open>Dispatcher: the requests a group writes\<close>

















subsection \<open>Listener groups: adding a listener\<close>








text \<open>The case the amended claim leaves open: the only listener of a group, lite so far,
  added again as non-lite.  The group subscribes again without unsubscribing.\<close>

lemma addListener_only_listener_upgraded:
  "snd (addListener ((new_ListenerGroup t)\<lparr>listeners := [(l, True)]\<rparr>) l False) = [DoSubscribe False]"
  by (simp add: addListener_def new_ListenerGroup_def jsmap_get_def jsmap_size_def)

subsection \<open>Dispatcher: listeners registered with a null filter\<close>

lemma DEFAULT_FILTER_value:
  "DEFAULT_FILTER =
     MapEventFilterObj ''filter.MapEventFilter'' 29 (Some (Filter ''filter.AlwaysFilter''))"
  by (simp add: DEFAULT_FILTER_def MapEventFilter_def Filters_always_def AlwaysFilter_INSTANCE_def
        filterName_def E_KEYSET_def E_INSERTED_def E_DELETED_def E_UPDATED_ENTERED_def
        E_UPDATED_LEFT_def)

text \<open>A null filter is replaced by the one default filter, in registration and in removal
  alike, so both look up the same key of \<open>filterMap\<close>.\<close>

lemma null_filter_is_default:
  "registerFilterListener stringify m l None isLite
     = registerFilterListener stringify m l (Some DEFAULT_FILTER) isLite"
  "removeFilterListener stringify m l None
     = removeFilterListener stringify m l (Some DEFAULT_FILTER)"
  by (simp_all add: registerFilterListener_def removeFilterListener_def filter_or_default_def)

text \<open>While the group of the default filter is in \<open>filterMap\<close>, a registration with null
  adds to that group and a removal with null removes from it.\<close>

lemma null_filter_uses_indexed_group:
  assumes "jsmap_get (filterMap m) (stringify (Flt DEFAULT_FILTER)) = Some g"
  shows "registerFilterListener stringify m l None isLite
           = group_addListener stringify m g l isLite"
    and "removeFilterListener stringify m l None = group_removeListener stringify m g l"
  using assms
  by (simp_all add: registerFilterListener_def removeFilterListener_def filter_or_default_def)

text \<open>Whatever the state of the dispatcher and of the group: \<open>postUnsubscribe\<close> of a
  filter group leaves no entry for the filter of the group in \<open>filterMap\<close>, and that of a
  key group leaves no entry for the key of the request in \<open>keyMap\<close>.  It is called from
  \<open>doUnsubscribe\<close>, also when the group unsubscribes only to subscribe again.\<close>

lemma checkAndCloseEventStream_maps:
  "filterMap (checkAndCloseEventStream m) = filterMap m"
  "keyMap (checkAndCloseEventStream m) = keyMap m"
  by (auto simp: checkAndCloseEventStream_def MapEventsManager_close_def record_action_fields
        split: option.splits stream_promise.splits)

lemma jsmap_get_delete: "jsmap_get (jsmap_delete m k) k = None"
  by (auto simp: jsmap_get_None jsmap_delete_def)

lemma postUnsubscribe_drops_group:
  "keyOrFilter (groups m g) = Flt flt \<Longrightarrow>
     jsmap_get (filterMap (postUnsubscribe stringify m g request)) (stringify (Flt flt)) = None"
  "keyOrFilter (groups m g) = Key k \<Longrightarrow> req_target request = Some (Key key) \<Longrightarrow>
     jsmap_get (keyMap (postUnsubscribe stringify m g request)) (stringify (Key key)) = None"
  by (simp_all add: postUnsubscribe_def filterGroupUnsubscribed_def keyGroupUnsubscribed_def
        checkAndCloseEventStream_maps jsmap_get_delete)

text \<open>
  C10: three registrations with a null filter on a new dispatcher, each acknowledged by
  the server: listener 1 lite, listener 2 non-lite, listener 3 lite.  The first creates
  group 0 and puts it into \<open>filterMap\<close>.  The second finds it and re-registers it as
  non-lite; the unsubscribe half of that ends in \<open>postUnsubscribe\<close>, which deletes the
  group from \<open>filterMap\<close> (and, the maps now being empty, cancels the stream).  The third
  therefore finds no group, creates group 1 for the same stringified filter and
  subscribes it: listeners 1 and 2 are in group 0, listener 3 in group 1, and two
  subscriptions for the default filter are active.  A removal of listener 1 with null
  looks into group 1 and changes nothing: listener 1 stays in group 0.
\<close>

theorem C10_null_filter_groups_split:
  "(let m1 = fst (registerFilterListener stringify (new_MapEventsManager name) 1 None True);
        m2 = fst (registerFilterListener stringify m1 2 None False);
        m3 = fst (registerFilterListener stringify m2 3 None True);
        m4 = fst (removeFilterListener stringify m3 1 None)
    in filterMap m1 = [(stringify (Flt DEFAULT_FILTER), 0)]
     \<and> listeners (groups m1 0) = [(1, True)]
     \<and> listeners (groups m2 0) = [(1, True), (2, False)]
     \<and> filterMap m2 = []
     \<and> filterMap m3 = [(stringify (Flt DEFAULT_FILTER), 1)]
     \<and> listeners (groups m3 0) = [(1, True), (2, False)]
     \<and> listeners (groups m3 1) = [(3, True)]
     \<and> map (\<lambda>r. (subscribe r, lite r, req_target r)) (listener_requests (trace m3))
         = [(True, True, Some (Flt DEFAULT_FILTER)),
            (False, False, Some (Flt DEFAULT_FILTER)),
            (True, False, Some (Flt DEFAULT_FILTER)),
            (True, True, Some (Flt DEFAULT_FILTER))]
     \<and> listeners (groups m4 0) = [(1, True), (2, False)]
     \<and> listeners (groups m4 1) = [(3, True)]
     \<and> written_since m3 m4 = [])"
  by code_simp

end
